theory Spec2Isabelle
  imports Main
begin

section \<open>JavaScript values that reach the background script\<close>

text \<open>
  Page ids, \<open>seller_id\<close> fields and message payloads are primitive JavaScript values.
  \<open>JNum n\<close> is an integer-valued number of magnitude below \<open>10^21\<close>, the range where
  \<open>String\<close> prints plain decimal digits; the three non-finite numbers have constructors
  of their own. A field that is absent reads as \<open>JUndefined\<close>.
\<close>

datatype jsval =
    JUndefined
  | JNull
  | JBool bool
  | JNum int
  | JNaN
  | JPosInf
  | JNegInf
  | JStr string

definition digitChar :: "nat \<Rightarrow> char" where
  "digitChar d = ''0123456789'' ! d"

function digits10 :: "nat \<Rightarrow> string" where
  "digits10 n = (if n < 10 then [digitChar n] else digits10 (n div 10) @ [digitChar (n mod 10)])"
  by pat_completeness auto
termination
  by (relation "measure (\<lambda>n. n)") auto

declare digits10.simps [simp del]

definition showInt :: "int \<Rightarrow> string" where
  "showInt n = (if n < 0 then CHR ''-'' # digits10 (nat (- n)) else digits10 (nat n))"

text \<open>\<open>String(v)\<close> on a primitive value.\<close>

fun String_js :: "jsval \<Rightarrow> string" where
  "String_js JUndefined = ''undefined''"
| "String_js JNull = ''null''"
| "String_js (JBool b) = (if b then ''true'' else ''false'')"
| "String_js (JNum n) = showInt n"
| "String_js JNaN = ''NaN''"
| "String_js JPosInf = ''Infinity''"
| "String_js JNegInf = ''-Infinity''"
| "String_js (JStr s) = s"

text \<open>
  One record of the registry, an element of \<open>sellers\<close> in sellers.json. The elements are
  objects, as the registry format has them; \<open>s.seller_id\<close> reads the field.
\<close>

record seller =
  seller_id :: jsval

section \<open>Matcher (the tail of doScanForTab)\<close>

text \<open>
  \<^verbatim>\<open>const sellersSet = new Set((cached.sellers || []).map(s => String(s.seller_id)));\<close>
\<close>

definition sellersSet :: "seller list \<Rightarrow> string set" where
  "sellersSet sellers = set (map (\<lambda>s. String_js (seller_id s)) sellers)"

text \<open>
  \<^verbatim>\<open>let matches = 0;
  for (const id of pageIds) { if (sellersSet.has(String(id))) matches++; }\<close>
  The loop carries \<open>matches\<close> as an accumulator.
\<close>

fun matchLoop :: "string set \<Rightarrow> jsval list \<Rightarrow> int \<Rightarrow> int" where
  "matchLoop S [] matches = matches"
| "matchLoop S (i # ids) matches =
     matchLoop S ids (if String_js i \<in> S then matches + 1 else matches)"

definition countMatches :: "jsval list \<Rightarrow> seller list \<Rightarrow> int" where
  "countMatches pageIds sellers = matchLoop (sellersSet sellers) pageIds 0"

section \<open>Network helper: fetchWithTimeoutAndRetry\<close>

datatype js_error = FetchFailed | Aborted | HttpStatus nat

text \<open>
  What \<open>res.json()\<close> yields, as far as fetchAndCacheSellers looks at it: \<open>null\<close>, or a
  value whose \<open>sellers\<close> property is missing, present but not an array, or an array.
\<close>

datatype sellers_prop = PropMissing | PropNotArray | PropArray "seller list"

datatype json_data = DataNull | DataValue sellers_prop

text \<open>A Response: \<open>ok\<close>, \<open>status\<close>, and the outcome of \<open>json()\<close> (\<open>None\<close> when it rejects).\<close>

record response =
  resp_ok :: bool
  resp_status :: nat
  resp_json :: "json_data option"

text \<open>What \<open>await fetch(...)\<close> does in one attempt; a timeout shows as \<open>Rejected Aborted\<close>.\<close>

datatype attempt_outcome = Rejected js_error | Resolved response

text \<open>
  The calls the helper makes, in order. The abort timer of attempt \<open>k\<close> is named \<open>k\<close>:
  every \<open>setTimeout\<close> returns a handle of its own.
\<close>

datatype io_event =
    SetAbortTimer nat nat
  | FetchCall string
  | ClearTimer nat
  | Sleep nat

datatype fetch_result = Returned response | Thrown js_error | FellThrough

definition FETCH_TIMEOUT_MS :: nat where
  "FETCH_TIMEOUT_MS = 8000"

definition FETCH_RETRIES :: nat where
  "FETCH_RETRIES = 1"

text \<open>
  The \<open>for (let attempt = 0; attempt <= retries; attempt++)\<close> loop; \<open>retries\<close> is a count,
  as at its only call site. A response that is not \<open>ok\<close> clears the timer, throws inside
  the \<open>try\<close> and clears it again in the \<open>catch\<close>. The network is a function from the
  attempt number to what \<open>fetch\<close> does then.
\<close>

function fetchLoop ::
  "(nat \<Rightarrow> attempt_outcome) \<Rightarrow> string \<Rightarrow> nat \<Rightarrow> nat \<Rightarrow> nat \<Rightarrow> io_event list \<times> fetch_result" where
  "fetchLoop net url timeout retries attempt =
     (if attempt \<le> retries then
        (case net attempt of
           Resolved res \<Rightarrow>
             if resp_ok res then
               ([SetAbortTimer attempt timeout, FetchCall url, ClearTimer attempt], Returned res)
             else if attempt = retries then
               ([SetAbortTimer attempt timeout, FetchCall url, ClearTimer attempt,
                 ClearTimer attempt], Thrown (HttpStatus (resp_status res)))
             else
               (let (evs, r) = fetchLoop net url timeout retries (attempt + 1) in
                ([SetAbortTimer attempt timeout, FetchCall url, ClearTimer attempt,
                  ClearTimer attempt, Sleep (300 * (attempt + 1))] @ evs, r))
         | Rejected err \<Rightarrow>
             if attempt = retries then
               ([SetAbortTimer attempt timeout, FetchCall url, ClearTimer attempt], Thrown err)
             else
               (let (evs, r) = fetchLoop net url timeout retries (attempt + 1) in
                ([SetAbortTimer attempt timeout, FetchCall url, ClearTimer attempt,
                  Sleep (300 * (attempt + 1))] @ evs, r)))
      else ([], FellThrough))"
  by pat_completeness auto
termination
  by (relation "measure (\<lambda>(net, url, timeout, retries, attempt). Suc retries - attempt)") auto

declare fetchLoop.simps [simp del]

text \<open>
  \<^verbatim>\<open>fetchWithTimeoutAndRetry(url, { timeout = FETCH_TIMEOUT_MS, retries = FETCH_RETRIES })\<close>:
  an option left out (\<open>None\<close>) takes its default.
\<close>

definition fetchWithTimeoutAndRetry ::
  "(nat \<Rightarrow> attempt_outcome) \<Rightarrow> string \<Rightarrow> nat option \<Rightarrow> nat option \<Rightarrow> io_event list \<times> fetch_result" where
  "fetchWithTimeoutAndRetry net url timeout retries =
     fetchLoop net url
       (case timeout of None \<Rightarrow> FETCH_TIMEOUT_MS | Some t \<Rightarrow> t)
       (case retries of None \<Rightarrow> FETCH_RETRIES | Some r \<Rightarrow> r) 0"

text \<open>Reading a trace: the attempts made, the error of an attempt, the timers still armed.\<close>

fun isFetch :: "io_event \<Rightarrow> bool" where
  "isFetch (FetchCall u) = True"
| "isFetch e = False"

fun isFetchOrSleep :: "io_event \<Rightarrow> bool" where
  "isFetchOrSleep (FetchCall u) = True"
| "isFetchOrSleep (Sleep d) = True"
| "isFetchOrSleep e = False"

definition attempts :: "io_event list \<Rightarrow> nat" where
  "attempts evs = length (filter isFetch evs)"

fun attemptError :: "attempt_outcome \<Rightarrow> js_error option" where
  "attemptError (Rejected err) = Some err"
| "attemptError (Resolved res) = (if resp_ok res then None else Some (HttpStatus (resp_status res)))"

fun armed :: "nat set \<Rightarrow> io_event list \<Rightarrow> nat set" where
  "armed T [] = T"
| "armed T (SetAbortTimer k t # evs) = armed (insert k T) evs"
| "armed T (ClearTimer k # evs) = armed (T - {k}) evs"
| "armed T (e # evs) = armed T evs"

text \<open>
  The expected rhythm of \<open>n\<close> more attempts, the next one being attempt number \<open>k\<close>
  (counted from 1): a fetch, and before each further fetch a pause of \<open>300 * k\<close> ms.
\<close>

fun rhythm :: "string \<Rightarrow> nat \<Rightarrow> nat \<Rightarrow> io_event list" where
  "rhythm url k 0 = []"
| "rhythm url k (Suc 0) = [FetchCall url]"
| "rhythm url k (Suc (Suc n)) = FetchCall url # Sleep (300 * k) # rhythm url (Suc k) (Suc n)"

section \<open>State of the background script\<close>

text \<open>
  The script's module-level variables, together with the three things of the browser it
  reads and writes: the two cache keys of \<open>chrome.storage.local\<close>, the table of pending
  \<open>setTimeout\<close> timers (handle, due time, tab of the callback) and the badge. Times are
  \<open>Date.now()\<close> readings in milliseconds; one synchronous stretch of code reads one time.
\<close>

record bg_state =
  badgeEnabled :: bool
  sellersUrl :: string
  cacheTtlMs :: int
  scanTiming :: string
  scanDelay :: int
  countsByTab :: "int \<rightharpoonup> int"
  lastScanAt :: "int \<rightharpoonup> int"
  scheduledTimers :: "int \<rightharpoonup> nat"
  pendingTimeouts :: "(nat \<times> int \<times> int) list"
  lastHandle :: nat
  storedSellers :: "seller list option"
  storedTs :: "int option"
  badgeText :: string
  badgeColor :: string

definition DEFAULT_SELLERS_URL :: string where
  "DEFAULT_SELLERS_URL = ''https://adwmg.com/sellers.json''"

definition BADGE_BG_COLOR :: string where
  "BADGE_BG_COLOR = ''#21aeb3''"

definition SCAN_COOLDOWN_MS :: int where
  "SCAN_COOLDOWN_MS = 60 * 1000"

text \<open>The values the script starts with (lines 18 to 27), nothing stored, no timer, no badge.\<close>

definition initState :: bg_state where
  "initState =
     \<lparr>badgeEnabled = True, sellersUrl = DEFAULT_SELLERS_URL, cacheTtlMs = 1000 * 60 * 60,
      scanTiming = ''immediate'', scanDelay = 10,
      countsByTab = Map.empty, lastScanAt = Map.empty, scheduledTimers = Map.empty,
      pendingTimeouts = [], lastHandle = 0,
      storedSellers = None, storedTs = None, badgeText = [], badgeColor = []\<rparr>"

section \<open>Registry cache\<close>

record cached =
  c_sellers :: "seller list"
  c_ts :: int

text \<open>
  getCachedSellers: \<^verbatim>\<open>sellers: Array.isArray(res[CACHE_KEY]) ? res[CACHE_KEY] : []\<close>,
  \<^verbatim>\<open>ts: res[CACHE_TS_KEY] || 0\<close>.
\<close>

definition getCachedSellers :: "bg_state \<Rightarrow> cached" where
  "getCachedSellers st =
     \<lparr>c_sellers = (case storedSellers st of Some xs \<Rightarrow> xs | None \<Rightarrow> []),
      c_ts = (case storedTs st of Some t \<Rightarrow> (if t = 0 then 0 else t) | None \<Rightarrow> 0)\<rparr>"

text \<open>
  fetchAndCacheSellers. \<open>data.sellers\<close> on \<open>null\<close> throws and lands in the \<open>catch\<close>; a
  \<open>sellers\<close> that is not an array is replaced by \<open>[]\<close> and stored. The write to the store
  succeeds. Returns the new state and the array, \<open>None\<close> for \<open>null\<close>.
\<close>

definition fetchAndCacheSellers ::
  "bg_state \<Rightarrow> bool \<Rightarrow> (nat \<Rightarrow> attempt_outcome) \<Rightarrow> int \<Rightarrow> bg_state \<times> seller list option" where
  "fetchAndCacheSellers st force net now =
     (if sellersUrl st = [] then (st, None)
      else
        (case snd (fetchWithTimeoutAndRetry net (sellersUrl st)
                     (Some FETCH_TIMEOUT_MS) (Some FETCH_RETRIES)) of
           Returned res \<Rightarrow>
             (case resp_json res of
                None \<Rightarrow> (st, if force then None else None)
              | Some DataNull \<Rightarrow> (st, if force then None else None)
              | Some (DataValue p) \<Rightarrow>
                  (let sellers = (case p of PropArray xs \<Rightarrow> xs | _ \<Rightarrow> [])
                   in (st\<lparr>storedSellers := Some sellers, storedTs := Some now\<rparr>, Some sellers)))
         | Thrown err \<Rightarrow> (st, if force then None else None)
         | FellThrough \<Rightarrow> (st, if force then None else None)))"

text \<open>
  The test of doScanForTab before it counts (line 217):
  \<^verbatim>\<open>(!cached.sellers || cached.sellers.length === 0) || (Date.now() - (cached.ts || 0) > cacheTtlMs)\<close>.
  An array is never falsy, so the first disjunct is the length test.
\<close>

definition isStale :: "cached \<Rightarrow> int \<Rightarrow> int \<Rightarrow> bool" where
  "isStale c now ttl =
     (length (c_sellers c) = 0 \<or> now - (if c_ts c = 0 then 0 else c_ts c) > ttl)"

section \<open>Badge and timers\<close>

text \<open>applyBadgeForTab: \<^verbatim>\<open>const count = countsByTab[tabId] || 0;\<close>\<close>

definition applyBadgeForTab :: "bg_state \<Rightarrow> int \<Rightarrow> bg_state" where
  "applyBadgeForTab st tabId =
     (if \<not> badgeEnabled st then st\<lparr>badgeText := []\<rparr>
      else
        (let count = (case countsByTab st tabId of None \<Rightarrow> 0 | Some c \<Rightarrow> (if c = 0 then 0 else c));
             text = (if count > 0 then String_js (JNum count) else [])
         in if text \<noteq> [] then st\<lparr>badgeText := text, badgeColor := BADGE_BG_COLOR\<rparr>
            else st\<lparr>badgeText := text\<rparr>))"

text \<open>cancelScheduled: \<open>clearTimeout\<close> takes the timer out of the browser's table.\<close>

definition cancelScheduled :: "bg_state \<Rightarrow> int \<Rightarrow> bg_state" where
  "cancelScheduled st tabId =
     (case scheduledTimers st tabId of
        None \<Rightarrow> st
      | Some t \<Rightarrow>
          if t = 0 then st
          else st\<lparr>pendingTimeouts := filter (\<lambda>(h, due, tab). h \<noteq> t) (pendingTimeouts st),
                  scheduledTimers := (scheduledTimers st)(tabId := None)\<rparr>)"

section \<open>Scan pipeline\<close>

text \<open>\<^verbatim>\<open>/^https?:\/\//i.test(url)\<close>: the letters of the scheme in either case.\<close>

definition lowerAscii :: "char \<Rightarrow> char" where
  "lowerAscii c =
     (case map_of (zip ''ABCDEFGHIJKLMNOPQRSTUVWXYZ'' ''abcdefghijklmnopqrstuvwxyz'') c of
        Some l \<Rightarrow> l
      | None \<Rightarrow> c)"

definition isHttpUrl :: "string \<Rightarrow> bool" where
  "isHttpUrl u =
     (map lowerAscii (take 7 u) = ''http://'' \<or> map lowerAscii (take 8 u) = ''https://'')"

text \<open>
  What the awaited calls of one doScanForTab give back: the tab of \<open>chrome.tabs.get\<close>
  (\<open>None\<close> on an error; its \<open>url\<close> may be missing), the ids of executeExtractSellerIds,
  the network for a refresh, the later clock readings (lines 217, 56 and 221), and the id
  of the active tab of \<open>chrome.tabs.query\<close>.
\<close>

record scan_env =
  env_tab :: "string option option"
  env_pageIds :: "jsval list"
  env_now_check :: int
  env_net :: "nat \<Rightarrow> attempt_outcome"
  env_now_store :: int
  env_now_fetched :: int
  env_active :: "int option"

text \<open>
  How far a call of doScanForTab went. JavaScript sees \<open>null\<close> for the first three and the
  number for the last.
\<close>

datatype scan_result = Disabled | CoolingDown | BadTab | Matches int

fun js_return :: "scan_result \<Rightarrow> int option" where
  "js_return (Matches n) = Some n"
| "js_return r = None"

fun passedGate :: "scan_result \<Rightarrow> bool" where
  "passedGate Disabled = False"
| "passedGate CoolingDown = False"
| "passedGate BadTab = True"
| "passedGate (Matches n) = True"

text \<open>Line 208, negated: \<^verbatim>\<open>!tab || !tab.url || !/^https?:\/\//i.test(tab.url)\<close>.\<close>

definition tabOk :: "scan_env \<Rightarrow> bool" where
  "tabOk env =
     (case env_tab env of
        None \<Rightarrow> False
      | Some None \<Rightarrow> False
      | Some (Some url) \<Rightarrow> \<not> (url = [] \<or> \<not> isHttpUrl url))"

text \<open>Lines 210 to 241 of doScanForTab: extraction, cache, refresh, count, badge.\<close>

definition scanPipeline :: "bg_state \<Rightarrow> int \<Rightarrow> scan_env \<Rightarrow> bg_state \<times> scan_result" where
  "scanPipeline st1 tabId env =
     (let pageIds = env_pageIds env;
          cached = getCachedSellers st1;
          (st2, cached2) =
            (if isStale cached (env_now_check env) (cacheTtlMs st1) then
               (case fetchAndCacheSellers st1 False (env_net env) (env_now_store env) of
                  (st2, Some fetched) \<Rightarrow>
                    (st2, cached\<lparr>c_sellers := fetched, c_ts := env_now_fetched env\<rparr>)
                | (st2, None) \<Rightarrow> (st2, cached))
             else (st1, cached));
          matches = countMatches pageIds (c_sellers cached2);
          st3 = st2\<lparr>countsByTab := (countsByTab st2)(tabId \<mapsto> matches)\<rparr>;
          st4 = (if env_active env = Some tabId then applyBadgeForTab st3 tabId else st3)
      in (st4, Matches matches))"

definition doScanForTab :: "bg_state \<Rightarrow> int \<Rightarrow> int \<Rightarrow> scan_env \<Rightarrow> bg_state \<times> scan_result" where
  "doScanForTab st tabId now env =
     (if \<not> badgeEnabled st then (st, Disabled)
      else if now - (case lastScanAt st tabId of None \<Rightarrow> 0 | Some t \<Rightarrow> (if t = 0 then 0 else t))
                < SCAN_COOLDOWN_MS then (st, CoolingDown)
      else
        (let st1 = st\<lparr>lastScanAt := (lastScanAt st)(tabId \<mapsto> now)\<rparr> in
         if \<not> tabOk env then (st1, BadTab)
         else scanPipeline st1 tabId env))"

text \<open>
  Two names for the statements below: a call gets past both early returns of
  doScanForTab; and the registry sequence a scan compares the page ids with (the fetched
  one after a refresh that returned an array, the cached one otherwise).
\<close>

definition gateOpen :: "bg_state \<Rightarrow> int \<Rightarrow> int \<Rightarrow> bool" where
  "gateOpen st tabId now =
     (badgeEnabled st \<and>
      \<not> now - (case lastScanAt st tabId of None \<Rightarrow> 0 | Some t \<Rightarrow> t) < SCAN_COOLDOWN_MS)"

definition registryUsed :: "bg_state \<Rightarrow> scan_env \<Rightarrow> seller list" where
  "registryUsed st env =
     (if isStale (getCachedSellers st) (env_now_check env) (cacheTtlMs st) then
        (case snd (fetchAndCacheSellers st False (env_net env) (env_now_store env)) of
           Some fetched \<Rightarrow> fetched
         | None \<Rightarrow> c_sellers (getCachedSellers st))
      else c_sellers (getCachedSellers st))"

section \<open>Scheduler\<close>

text \<open>
  scheduleScan, with \<open>delayMs\<close> of line 248 as a function of the settings.
  \<open>setTimeout\<close> hands out a new positive handle. The second component tells whether
  doScanForTab was called at once, and how far it went.
\<close>

definition delayMsOf :: "bg_state \<Rightarrow> int" where
  "delayMsOf st = (if scanTiming st = ''delayed'' then max 0 (scanDelay st) * 1000 else 0)"

definition scheduleScan ::
  "bg_state \<Rightarrow> int \<Rightarrow> int \<Rightarrow> scan_env \<Rightarrow> bg_state \<times> scan_result option" where
  "scheduleScan st tabId now env =
     (let st1 = cancelScheduled st tabId in
      if \<not> badgeEnabled st1 then (st1, None)
      else
        (let delayMs = delayMsOf st1 in
         if delayMs = 0 then
           (let (st2, r) = doScanForTab st1 tabId now env in (st2, Some r))
         else
           (let h = Suc (lastHandle st1) in
            (st1\<lparr>scheduledTimers := (scheduledTimers st1)(tabId \<mapsto> h),
                 pendingTimeouts := pendingTimeouts st1 @ [(h, now + delayMs, tabId)],
                 lastHandle := h\<rparr>, None))))"

text \<open>
  The timer with handle \<open>h\<close> fires: it leaves the browser's table and its callback runs,
  \<^verbatim>\<open>delete scheduledTimers[tabId]; doScanForTab(tabId)\<close>.
\<close>

definition timerFired ::
  "bg_state \<Rightarrow> nat \<Rightarrow> int \<Rightarrow> scan_env \<Rightarrow> bg_state \<times> scan_result option" where
  "timerFired st h now env =
     (case find (\<lambda>(h', due, tab). h' = h) (pendingTimeouts st) of
        None \<Rightarrow> (st, None)
      | Some (h', due, tab) \<Rightarrow>
          (let st1 = st\<lparr>pendingTimeouts := filter (\<lambda>(h', due, tab). h' \<noteq> h) (pendingTimeouts st),
                        scheduledTimers := (scheduledTimers st)(tab := None)\<rparr>;
               (st2, r) = doScanForTab st1 tab now env
           in (st2, Some r)))"

section \<open>Lifecycle hooks\<close>

definition onActivated ::
  "bg_state \<Rightarrow> int \<Rightarrow> int \<Rightarrow> scan_env \<Rightarrow> bg_state \<times> scan_result option" where
  "onActivated st tabId now env =
     (if \<not> badgeEnabled st then (st\<lparr>badgeText := []\<rparr>, None)
      else scheduleScan (applyBadgeForTab st tabId) tabId now env)"

record change_info =
  ci_status :: "string option"
  ci_url :: "string option"

text \<open>
  onUpdated: the synchronous part first, then the two \<open>chrome.tabs.query\<close> callbacks in
  the order they were asked for.
\<close>

definition onUpdated ::
  "bg_state \<Rightarrow> int \<Rightarrow> change_info \<Rightarrow> int \<Rightarrow> scan_env \<Rightarrow> bg_state \<times> scan_result option" where
  "onUpdated st tabId changeInfo now env =
     (if \<not> badgeEnabled st then (st\<lparr>badgeText := []\<rparr>, None)
      else
        (let navigating = (ci_status changeInfo = Some ''loading'' \<or>
                           (case ci_url changeInfo of None \<Rightarrow> False | Some u \<Rightarrow> u \<noteq> []));
             st1 = (if navigating then
                      cancelScheduled (st\<lparr>countsByTab := (countsByTab st)(tabId := None)\<rparr>) tabId
                    else st);
             (st2, r) = (if ci_status changeInfo = Some ''complete'' \<and> env_active env = Some tabId
                         then scheduleScan st1 tabId now env else (st1, None));
             st3 = (if navigating \<and> env_active env = Some tabId
                    then applyBadgeForTab st2 tabId else st2)
         in (st3, r)))"

definition onRemoved :: "bg_state \<Rightarrow> int \<Rightarrow> bg_state" where
  "onRemoved st tabId =
     cancelScheduled
       (st\<lparr>countsByTab := (countsByTab st)(tabId := None),
           lastScanAt := (lastScanAt st)(tabId := None)\<rparr>) tabId"

section \<open>Messages\<close>

text \<open>
  getSellersCache: the response, and whether \<open>fetchAndCacheSellers()\<close> was started (it is
  not awaited). The state is untouched until that refresh, if started, settles.
\<close>

definition onMessage_getSellersCache :: "bg_state \<Rightarrow> int \<Rightarrow> cached \<times> bool" where
  "onMessage_getSellersCache st now =
     (let cached = getCachedSellers st
      in (\<lparr>c_sellers = c_sellers cached, c_ts = (if c_ts cached = 0 then 0 else c_ts cached)\<rparr>,
          c_ts cached = 0 \<or> now - c_ts cached > cacheTtlMs st))"

definition getSellersCache_settled ::
  "bg_state \<Rightarrow> int \<Rightarrow> (nat \<Rightarrow> attempt_outcome) \<Rightarrow> int \<Rightarrow> bg_state" where
  "getSellersCache_settled st now net now_store =
     (if snd (onMessage_getSellersCache st now)
      then fst (fetchAndCacheSellers st False net now_store) else st)"

text \<open>
  \<^verbatim>\<open>Number.isFinite(message.count) ? Math.max(0, message.count) : 0\<close>
\<close>

definition Number_isFinite :: "jsval \<Rightarrow> bool" where
  "Number_isFinite v = (case v of JNum n \<Rightarrow> True | _ \<Rightarrow> False)"

definition clampCount :: "jsval \<Rightarrow> int" where
  "clampCount v = (if Number_isFinite v then (case v of JNum n \<Rightarrow> max 0 n | _ \<Rightarrow> 0) else 0)"

definition onMessage_setBadge :: "bg_state \<Rightarrow> jsval \<Rightarrow> bg_state" where
  "onMessage_setBadge st msg_count =
     (if \<not> badgeEnabled st then st\<lparr>badgeText := []\<rparr>
      else
        (let count = clampCount msg_count;
             text = (if count > 0 then String_js (JNum count) else [])
         in if text \<noteq> [] then st\<lparr>badgeText := text, badgeColor := BADGE_BG_COLOR\<rparr>
            else st\<lparr>badgeText := text\<rparr>))"

text \<open>scanResult: \<open>sender_tab\<close> is \<open>sender.tab.id\<close> when it is a number.\<close>

definition onMessage_scanResult :: "bg_state \<Rightarrow> int option \<Rightarrow> jsval \<Rightarrow> int option \<Rightarrow> bg_state" where
  "onMessage_scanResult st sender_tab msg_count active =
     (let count = clampCount msg_count in
      case sender_tab of
        None \<Rightarrow> st
      | Some tabId \<Rightarrow>
          (let st1 = st\<lparr>countsByTab := (countsByTab st)(tabId \<mapsto> count)\<rparr>
           in if active = Some tabId then applyBadgeForTab st1 tabId else st1))"

text \<open>refreshSellers: \<^verbatim>\<open>if (sellers) response = { ok: true, sellers }; else response = { ok: false };\<close>\<close>

definition onMessage_refreshSellers ::
  "bg_state \<Rightarrow> (nat \<Rightarrow> attempt_outcome) \<Rightarrow> int \<Rightarrow> bg_state \<times> seller list option" where
  "onMessage_refreshSellers st net now = fetchAndCacheSellers st True net now"

section \<open>Events\<close>

text \<open>
  The listeners as one step function. Each event carries what the browser supplies while
  it is handled; a handler runs to its end before the next event. The second component is
  the call of doScanForTab the event led to, if any.
\<close>

datatype event =
    Activated int int scan_env
  | Updated int change_info int scan_env
  | Removed int
  | TimerFired nat int scan_env
  | MsgGetSellersCache int "nat \<Rightarrow> attempt_outcome" int
  | MsgRefreshSellers "nat \<Rightarrow> attempt_outcome" int
  | MsgSetBadge jsval
  | MsgScanResult "int option" jsval "int option"

fun step :: "bg_state \<Rightarrow> event \<Rightarrow> bg_state \<times> scan_result option" where
  "step st (Activated tabId now env) = onActivated st tabId now env"
| "step st (Updated tabId changeInfo now env) = onUpdated st tabId changeInfo now env"
| "step st (Removed tabId) = (onRemoved st tabId, None)"
| "step st (TimerFired h now env) = timerFired st h now env"
| "step st (MsgGetSellersCache now net now_store) =
     (getSellersCache_settled st now net now_store, None)"
| "step st (MsgRefreshSellers net now) = (fst (onMessage_refreshSellers st net now), None)"
| "step st (MsgSetBadge msg_count) = (onMessage_setBadge st msg_count, None)"
| "step st (MsgScanResult sender_tab msg_count active) =
     (onMessage_scanResult st sender_tab msg_count active, None)"

fun run :: "bg_state \<Rightarrow> event list \<Rightarrow> bg_state \<times> scan_result option list" where
  "run st [] = (st, [])"
| "run st (e # es) =
     (let (st1, r) = step st e; (st2, rs) = run st1 es in (st2, r # rs))"

text \<open>The events the scheduler reacts to: tab activation, tab update, a timer of its own.\<close>

fun isSchedulerEvent :: "event \<Rightarrow> bool" where
  "isSchedulerEvent (Activated tabId now env) = True"
| "isSchedulerEvent (Updated tabId changeInfo now env) = True"
| "isSchedulerEvent (TimerFired h now env) = True"
| "isSchedulerEvent e = False"

fun isTabEvent :: "event \<Rightarrow> bool" where
  "isTabEvent (Activated tabId now env) = True"
| "isTabEvent (Updated tabId changeInfo now env) = True"
| "isTabEvent e = False"

text \<open>The tab and the time of a trigger event.\<close>

fun triggerOf :: "event \<Rightarrow> (int \<times> int) option" where
  "triggerOf (Activated tabId now env) = Some (tabId, now)"
| "triggerOf (Updated tabId changeInfo now env) =
     (if ci_status changeInfo = Some ''complete'' then Some (tabId, now) else None)"
| "triggerOf e = None"

text \<open>
  The call of doScanForTab an event makes in a given state, as the tab and the time of the
  call: by a trigger when the handler reaches scheduleScan and the delay is zero, by a
  timer of the scheduler when it fires. No other event calls doScanForTab.
\<close>

fun scanCall :: "bg_state \<Rightarrow> event \<Rightarrow> (int \<times> int) option" where
  "scanCall st (Activated tabId now env) =
     (if badgeEnabled st \<and> delayMsOf st = 0 then Some (tabId, now) else None)"
| "scanCall st (Updated tabId changeInfo now env) =
     (if badgeEnabled st \<and> ci_status changeInfo = Some ''complete'' \<and>
         env_active env = Some tabId \<and> delayMsOf st = 0
      then Some (tabId, now) else None)"
| "scanCall st (TimerFired h now env) =
     (case find (\<lambda>(h', due, tab). h' = h) (pendingTimeouts st) of
        None \<Rightarrow> None
      | Some (h', due, tab) \<Rightarrow> Some (tab, now))"
| "scanCall st e = None"

fun scanRan :: "scan_result option \<Rightarrow> bool" where
  "scanRan None = False"
| "scanRan (Some r) = passedGate r"

text \<open>
  Invariants: every stored count is at least 0; the timer bookkeeping is consistent (the
  pending timers have distinct positive handles handed out so far, and scheduledTimers
  names exactly the pending timer of each tab).
\<close>

definition countsNonneg :: "bg_state \<Rightarrow> bool" where
  "countsNonneg st = (\<forall>tabId c. countsByTab st tabId = Some c \<longrightarrow> 0 \<le> c)"

text \<open>The pending timers whose callback scans the given tab.\<close>

definition timersFor :: "bg_state \<Rightarrow> int \<Rightarrow> (nat \<times> int \<times> int) list" where
  "timersFor st tabId = filter (\<lambda>(h, due, tab). tab = tabId) (pendingTimeouts st)"

definition timersOk :: "bg_state \<Rightarrow> bool" where
  "timersOk st =
     (distinct (map fst (pendingTimeouts st)) \<and>
      (\<forall>(h, due, tab) \<in> set (pendingTimeouts st).
          0 < h \<and> h \<le> lastHandle st \<and> scheduledTimers st tab = Some h) \<and>
      (\<forall>tab h. scheduledTimers st tab = Some h \<longrightarrow> h \<in> fst ` set (timersFor st tab)))"

text \<open>
  Nothing of a scan has happened between two states: the badge is still disabled, no
  last-scan time, count or cache entry has changed, and no timer has been added.
\<close>

definition quietSince :: "bg_state \<Rightarrow> bg_state \<Rightarrow> bool" where
  "quietSince st st' =
     (\<not> badgeEnabled st' \<and> lastScanAt st' = lastScanAt st \<and> countsByTab st' = countsByTab st \<and>
      storedSellers st' = storedSellers st \<and> storedTs st' = storedTs st \<and>
      lastHandle st' = lastHandle st \<and>
      set (pendingTimeouts st') \<subseteq> set (pendingTimeouts st))"

section \<open>Sample inputs\<close>

text \<open>
  A tab on an http(s) page with two declared ids, a registry server that answers with two
  sellers, and a tab that is gone.
\<close>

definition sampleRegistry :: "seller list" where
  "sampleRegistry = [\<lparr>seller_id = JStr ''123''\<rparr>, \<lparr>seller_id = JNum 456\<rparr>]"

definition sampleEnv :: scan_env where
  "sampleEnv =
     \<lparr>env_tab = Some (Some ''HTTPS://example.com/''),
      env_pageIds = [JStr ''123'', JStr ''789''],
      env_now_check = 100000,
      env_net = (\<lambda>k. Resolved \<lparr>resp_ok = True, resp_status = 200,
                   resp_json = Some (DataValue (PropArray sampleRegistry))\<rparr>),
      env_now_store = 100001,
      env_now_fetched = 100002,
      env_active = Some 7\<rparr>"

definition goneEnv :: scan_env where
  "goneEnv = sampleEnv\<lparr>env_tab := None\<rparr>"

definition cachedState :: bg_state where
  "cachedState = initState\<lparr>storedSellers := Some sampleRegistry, storedTs := Some 100001\<rparr>"

definition noSellersNet :: "nat \<Rightarrow> attempt_outcome" where
  "noSellersNet = (\<lambda>k. Resolved \<lparr>resp_ok = True, resp_status = 200,
                         resp_json = Some (DataValue PropMissing)\<rparr>)"

definition emptyFresh :: bg_state where
  "emptyFresh = cachedState\<lparr>storedSellers := Some [], storedTs := Some 200000\<rparr>"

definition delayedState :: bg_state where
  "delayedState = initState\<lparr>scanTiming := ''delayed''\<rparr>"

definition pendingState :: bg_state where
  "pendingState =
     delayedState\<lparr>scheduledTimers := [7 \<mapsto> 1], pendingTimeouts := [(1, 110000, 7)],
                  lastHandle := 1\<rparr>"

text \<open>The sample tab at a later time, and with another tab active.\<close>

definition envAt :: "int \<Rightarrow> scan_env" where
  "envAt t = sampleEnv\<lparr>env_now_check := t, env_now_store := t + 1, env_now_fetched := t + 2\<rparr>"

definition goneAt :: "int \<Rightarrow> scan_env" where
  "goneAt t = (envAt t)\<lparr>env_tab := None\<rparr>"

definition backgroundEnv :: scan_env where
  "backgroundEnv = sampleEnv\<lparr>env_active := Some 8\<rparr>"

text \<open>
  Delayed timing, after a first activation at 100000, its timer firing at 110000 with a
  full scan, and a second activation at 159000.
\<close>

definition rescheduledState :: bg_state where
  "rescheduledState =
     delayedState\<lparr>lastScanAt := [7 \<mapsto> 110000], countsByTab := [7 \<mapsto> 1],
       storedSellers := Some sampleRegistry, storedTs := Some 110001,
       badgeText := ''1'', badgeColor := BADGE_BG_COLOR,
       scheduledTimers := [7 \<mapsto> 2], pendingTimeouts := [(2, 169000, 7)], lastHandle := 2\<rparr>"

section \<open>Lemmas\<close>

subsection \<open>Matcher and number printing\<close>

lemma matchLoop_filter:
  "matchLoop S ids m = m + int (length (filter (\<lambda>i. String_js i \<in> S) ids))"
  by (induction ids arbitrary: m) simp_all

lemma digits10_nonempty: "digits10 n \<noteq> []"
  by (subst digits10.simps) simp

lemma showInt_nonempty: "showInt n \<noteq> []"
  by (simp add: showInt_def digits10_nonempty)

subsection \<open>fetchWithTimeoutAndRetry\<close>

lemma armed_append: "armed T (xs @ ys) = armed (armed T xs) ys"
  by (induction T xs rule: armed.induct) simp_all

lemma fetchLoop_armed: "armed T (fst (fetchLoop net url t r a)) \<subseteq> T"
proof (induction net url t r a arbitrary: T rule: fetchLoop.induct)
  case (1 net url t r a)
  have step: "armed (T - {a}) (fst (fetchLoop net url t r (a + 1))) \<subseteq> T"
    if "a \<le> r" "a \<noteq> r" "attemptError (net a) \<noteq> None"
  proof (cases "net a")
    case (Rejected err)
    from "1.IH"(1) [OF that(1) Rejected that(2), of "T - {a}"] show ?thesis
      by auto
  next
    case (Resolved res)
    with that(3) have "\<not> resp_ok res" by (auto split: if_splits)
    from "1.IH"(2) [OF that(1) Resolved this that(2), of "T - {a}"] show ?thesis
      by auto
  qed
  show ?case
    apply (subst fetchLoop.simps)
    using step
    apply (auto simp: armed_append split: attempt_outcome.splits prod.splits)
    done
qed

lemma fetchLoop_attempts_pos: "a \<le> r \<Longrightarrow> 0 < attempts (fst (fetchLoop net url t r a))"
  by (subst fetchLoop.simps)
     (auto simp: attempts_def split: attempt_outcome.splits prod.splits)

lemma rhythm_Suc:
  "0 < n \<Longrightarrow> rhythm url k (Suc n) = FetchCall url # Sleep (300 * k) # rhythm url (Suc k) n"
  by (cases n) simp_all

lemma fetchLoop_rhythm:
  "filter isFetchOrSleep (fst (fetchLoop net url t r a)) =
     rhythm url (Suc a) (attempts (fst (fetchLoop net url t r a)))"
proof (induction net url t r a rule: fetchLoop.induct)
  case (1 net url t r a)
  have pos: "0 < attempts (fst (fetchLoop net url t r (Suc a)))" if "a \<le> r" "a \<noteq> r"
    using that by (intro fetchLoop_attempts_pos) simp
  show ?case
    apply (subst (1 2) fetchLoop.simps)
    using "1.IH" pos
    apply (auto simp: attempts_def rhythm_Suc split: attempt_outcome.splits prod.splits)
    done
qed


lemma fetchLoop_attempts_le:
  "attempts (fst (fetchLoop net url t r a)) \<le> Suc r - a"
proof (induction net url t r a rule: fetchLoop.induct)
  case (1 net url t r a)
  show ?case
    using "1.IH"
    by (subst fetchLoop.simps)
       (auto simp: attempts_def split: attempt_outcome.splits prod.splits)
qed

lemma fetchLoop_all_fail:
  "a \<le> r \<Longrightarrow> \<forall>k. a \<le> k \<and> k \<le> r \<longrightarrow> attemptError (net k) \<noteq> None \<Longrightarrow>
     snd (fetchLoop net url t r a) = Thrown (the (attemptError (net r))) \<and>
     attempts (fst (fetchLoop net url t r a)) = Suc r - a"
proof (induction net url t r a rule: fetchLoop.induct)
  case (1 net url t r a)
  show ?case
    apply (subst (1 2) fetchLoop.simps)
    using "1.IH" "1.prems"
    apply (auto simp: attempts_def split: attempt_outcome.splits prod.splits)
    done
qed

lemma fetchLoop_not_fell: "a \<le> r \<Longrightarrow> snd (fetchLoop net url t r a) \<noteq> FellThrough"
proof (induction net url t r a rule: fetchLoop.induct)
  case (1 net url t r a)
  show ?case
    apply (subst fetchLoop.simps)
    using "1.IH" "1.prems"
    apply (auto split: attempt_outcome.splits prod.splits)
    done
qed

subsection \<open>What doScanForTab leaves alone, and what it writes\<close>

lemma fetchAndCacheSellers_frame:
  "badgeEnabled (fst (fetchAndCacheSellers st f net now)) = badgeEnabled st"
  "lastScanAt (fst (fetchAndCacheSellers st f net now)) = lastScanAt st"
  "countsByTab (fst (fetchAndCacheSellers st f net now)) = countsByTab st"
  "scheduledTimers (fst (fetchAndCacheSellers st f net now)) = scheduledTimers st"
  "pendingTimeouts (fst (fetchAndCacheSellers st f net now)) = pendingTimeouts st"
  "lastHandle (fst (fetchAndCacheSellers st f net now)) = lastHandle st"
  "badgeText (fst (fetchAndCacheSellers st f net now)) = badgeText st"
  "cacheTtlMs (fst (fetchAndCacheSellers st f net now)) = cacheTtlMs st"
  "scanTiming (fst (fetchAndCacheSellers st f net now)) = scanTiming st"
  "scanDelay (fst (fetchAndCacheSellers st f net now)) = scanDelay st"
  by (simp_all add: fetchAndCacheSellers_def Let_def
      split: fetch_result.splits option.splits json_data.splits)

lemma applyBadgeForTab_frame:
  "badgeEnabled (applyBadgeForTab st tab) = badgeEnabled st"
  "lastScanAt (applyBadgeForTab st tab) = lastScanAt st"
  "countsByTab (applyBadgeForTab st tab) = countsByTab st"
  "scheduledTimers (applyBadgeForTab st tab) = scheduledTimers st"
  "pendingTimeouts (applyBadgeForTab st tab) = pendingTimeouts st"
  "lastHandle (applyBadgeForTab st tab) = lastHandle st"
  "storedSellers (applyBadgeForTab st tab) = storedSellers st"
  "storedTs (applyBadgeForTab st tab) = storedTs st"
  "cacheTtlMs (applyBadgeForTab st tab) = cacheTtlMs st"
  "scanTiming (applyBadgeForTab st tab) = scanTiming st"
  "scanDelay (applyBadgeForTab st tab) = scanDelay st"
  by (simp_all add: applyBadgeForTab_def Let_def)

text \<open>The pipeline, with the refresh (if any) named.\<close>

lemma scanPipeline_unfold:
  "scanPipeline st tab env =
     (let st2 = (if isStale (getCachedSellers st) (env_now_check env) (cacheTtlMs st)
                 then fst (fetchAndCacheSellers st False (env_net env) (env_now_store env))
                 else st);
          m = countMatches (env_pageIds env) (registryUsed st env);
          st3 = st2\<lparr>countsByTab := (countsByTab st2)(tab \<mapsto> m)\<rparr>
      in (if env_active env = Some tab then applyBadgeForTab st3 tab else st3, Matches m))"
proof (cases "isStale (getCachedSellers st) (env_now_check env) (cacheTtlMs st)")
  case False
  then show ?thesis
    by (simp add: scanPipeline_def registryUsed_def Let_def)
next
  case True
  obtain st2 r where f:
    "fetchAndCacheSellers st False (env_net env) (env_now_store env) = (st2, r)"
    by (cases "fetchAndCacheSellers st False (env_net env) (env_now_store env)")
  show ?thesis
    using True f by (cases r) (simp_all add: scanPipeline_def registryUsed_def Let_def)
qed

lemma scanPipeline_frame:
  "badgeEnabled (fst (scanPipeline st tab env)) = badgeEnabled st"
  "lastScanAt (fst (scanPipeline st tab env)) = lastScanAt st"
  "scheduledTimers (fst (scanPipeline st tab env)) = scheduledTimers st"
  "pendingTimeouts (fst (scanPipeline st tab env)) = pendingTimeouts st"
  "lastHandle (fst (scanPipeline st tab env)) = lastHandle st"
  "cacheTtlMs (fst (scanPipeline st tab env)) = cacheTtlMs st"
  "scanTiming (fst (scanPipeline st tab env)) = scanTiming st"
  "scanDelay (fst (scanPipeline st tab env)) = scanDelay st"
  by (simp_all add: scanPipeline_unfold Let_def applyBadgeForTab_frame fetchAndCacheSellers_frame)

lemma scanPipeline_counts:
  "countsByTab (fst (scanPipeline st tab env)) =
     (countsByTab st)(tab \<mapsto> countMatches (env_pageIds env) (registryUsed st env))"
  "snd (scanPipeline st tab env) = Matches (countMatches (env_pageIds env) (registryUsed st env))"
  by (simp_all add: scanPipeline_unfold Let_def applyBadgeForTab_frame fetchAndCacheSellers_frame)

lemma scanPipeline_store:
  "storedSellers (fst (scanPipeline st tab env)) =
     storedSellers (if isStale (getCachedSellers st) (env_now_check env) (cacheTtlMs st)
                    then fst (fetchAndCacheSellers st False (env_net env) (env_now_store env))
                    else st)"
  "storedTs (fst (scanPipeline st tab env)) =
     storedTs (if isStale (getCachedSellers st) (env_now_check env) (cacheTtlMs st)
                    then fst (fetchAndCacheSellers st False (env_net env) (env_now_store env))
                    else st)"
  by (simp_all add: scanPipeline_unfold Let_def applyBadgeForTab_frame)

lemma doScanForTab_closed:
  "\<not> gateOpen st tab now \<Longrightarrow>
   doScanForTab st tab now env = (st, if badgeEnabled st then CoolingDown else Disabled)"
  by (auto simp: doScanForTab_def gateOpen_def split: option.splits)

lemma doScanForTab_open:
  "gateOpen st tab now \<Longrightarrow>
   doScanForTab st tab now env =
     (if tabOk env then scanPipeline (st\<lparr>lastScanAt := (lastScanAt st)(tab \<mapsto> now)\<rparr>) tab env
      else (st\<lparr>lastScanAt := (lastScanAt st)(tab \<mapsto> now)\<rparr>, BadTab))"
  by (auto simp: doScanForTab_def gateOpen_def Let_def split: option.splits)

lemma doScanForTab_passed: "passedGate (snd (doScanForTab st tab now env)) = gateOpen st tab now"
  by (cases "gateOpen st tab now")
     (simp_all add: doScanForTab_closed doScanForTab_open scanPipeline_counts)

lemma doScanForTab_stamp:
  "gateOpen st tab now \<Longrightarrow>
     lastScanAt (fst (doScanForTab st tab now env)) = (lastScanAt st)(tab \<mapsto> now)"
  by (simp add: doScanForTab_open scanPipeline_frame)

lemma doScanForTab_frame:
  "badgeEnabled (fst (doScanForTab st tab now env)) = badgeEnabled st"
  "scheduledTimers (fst (doScanForTab st tab now env)) = scheduledTimers st"
  "pendingTimeouts (fst (doScanForTab st tab now env)) = pendingTimeouts st"
  "lastHandle (fst (doScanForTab st tab now env)) = lastHandle st"
  "cacheTtlMs (fst (doScanForTab st tab now env)) = cacheTtlMs st"
  "scanTiming (fst (doScanForTab st tab now env)) = scanTiming st"
  "scanDelay (fst (doScanForTab st tab now env)) = scanDelay st"
  by (cases "gateOpen st tab now";
      simp add: doScanForTab_closed doScanForTab_open scanPipeline_frame)+

lemma fetchAndCacheSellers_stamp:
  "fetchAndCacheSellers (st\<lparr>lastScanAt := x\<rparr>) f net now =
     ((fst (fetchAndCacheSellers st f net now))\<lparr>lastScanAt := x\<rparr>,
      snd (fetchAndCacheSellers st f net now))"
  by (simp add: fetchAndCacheSellers_def Let_def
      split: fetch_result.splits option.splits json_data.splits)

lemma getCachedSellers_stamp: "getCachedSellers (st\<lparr>lastScanAt := x\<rparr>) = getCachedSellers st"
  by (simp add: getCachedSellers_def)

lemma registryUsed_stamp: "registryUsed (st\<lparr>lastScanAt := x\<rparr>) env = registryUsed st env"
  by (simp add: registryUsed_def getCachedSellers_stamp fetchAndCacheSellers_stamp
      split: option.splits)

lemma isStale_iff: "isStale c now ttl \<longleftrightarrow> c_sellers c = [] \<or> now - c_ts c > ttl"
  by (simp add: isStale_def)

subsection \<open>The sample inputs, evaluated\<close>

lemma lowerAscii_simps:
  "lowerAscii CHR ''H'' = CHR ''h''" "lowerAscii CHR ''T'' = CHR ''t''"
  "lowerAscii CHR ''P'' = CHR ''p''" "lowerAscii CHR ''S'' = CHR ''s''"
  "lowerAscii CHR ''h'' = CHR ''h''" "lowerAscii CHR ''t'' = CHR ''t''"
  "lowerAscii CHR ''p'' = CHR ''p''" "lowerAscii CHR ''s'' = CHR ''s''"
  "lowerAscii CHR '':'' = CHR '':''" "lowerAscii CHR ''/'' = CHR ''/''"
  by (simp_all add: lowerAscii_def)



lemma tabOk_sample: "tabOk sampleEnv"
  by (simp add: tabOk_def sampleEnv_def isHttpUrl_def lowerAscii_simps)

lemma gate_init: "gateOpen initState 7 100000"
  by (simp add: gateOpen_def initState_def SCAN_COOLDOWN_MS_def)

lemma fetch_sample:
  "fetchAndCacheSellers st False (env_net sampleEnv) now =
    (if sellersUrl st = [] then (st, None)
     else (st\<lparr>storedSellers := Some sampleRegistry, storedTs := Some now\<rparr>, Some sampleRegistry))"
  by (simp add: fetchAndCacheSellers_def fetchWithTimeoutAndRetry_def fetchLoop.simps sampleEnv_def)


lemma sample_scan:
  "doScanForTab initState 7 100000 sampleEnv =
     (initState\<lparr>lastScanAt := [7 \<mapsto> 100000], countsByTab := [7 \<mapsto> 1],
        storedSellers := Some sampleRegistry, storedTs := Some 100001,
        badgeText := ''1'', badgeColor := BADGE_BG_COLOR\<rparr>, Matches 1)"
  apply (simp add: doScanForTab_open [OF gate_init] tabOk_sample scanPipeline_unfold
      registryUsed_def fetch_sample Let_def)
  apply (simp add: initState_def isStale_def getCachedSellers_def sampleEnv_def
      DEFAULT_SELLERS_URL_def countMatches_def sellersSet_def sampleRegistry_def
      applyBadgeForTab_def showInt_def digits10.simps digitChar_def Let_def)
  done

subsection \<open>fetchAndCacheSellers\<close>

lemma fetchAndCacheSellers_cases:
  "fetchAndCacheSellers st force net now =
     (if sellersUrl st = [] then (st, None)
      else case snd (fetchWithTimeoutAndRetry net (sellersUrl st)
                       (Some FETCH_TIMEOUT_MS) (Some FETCH_RETRIES)) of
             Returned res \<Rightarrow>
               (case resp_json res of
                  Some (DataValue p) \<Rightarrow>
                    (st\<lparr>storedSellers := Some (case p of PropArray xs \<Rightarrow> xs | _ \<Rightarrow> []),
                        storedTs := Some now\<rparr>,
                     Some (case p of PropArray xs \<Rightarrow> xs | _ \<Rightarrow> []))
                | _ \<Rightarrow> (st, None))
           | _ \<Rightarrow> (st, None))"
  by (simp add: fetchAndCacheSellers_def Let_def
      split: fetch_result.splits option.splits json_data.splits)

lemma fetch_noSellers:
  "fetchAndCacheSellers st force noSellersNet now =
    (if sellersUrl st = [] then (st, None)
     else (st\<lparr>storedSellers := Some [], storedTs := Some now\<rparr>, Some []))"
  by (simp add: fetchAndCacheSellers_cases fetchWithTimeoutAndRetry_def fetchLoop.simps
      noSellersNet_def)

subsection \<open>Stored counts never go below zero\<close>

lemma clampCount_nonneg: "0 \<le> clampCount v"
  by (simp add: clampCount_def split: jsval.splits)

lemma clampCount_cases: "clampCount v = (case v of JNum n \<Rightarrow> max 0 n | _ \<Rightarrow> 0)"
  by (simp add: clampCount_def Number_isFinite_def split: jsval.splits)

lemma countMatches_nonneg: "0 \<le> countMatches P R"
  by (simp add: countMatches_def matchLoop_filter)

lemma cancelScheduled_frame:
  "badgeEnabled (cancelScheduled st tab) = badgeEnabled st"
  "lastScanAt (cancelScheduled st tab) = lastScanAt st"
  "countsByTab (cancelScheduled st tab) = countsByTab st"
  "lastHandle (cancelScheduled st tab) = lastHandle st"
  "storedSellers (cancelScheduled st tab) = storedSellers st"
  "storedTs (cancelScheduled st tab) = storedTs st"
  "badgeText (cancelScheduled st tab) = badgeText st"
  "cacheTtlMs (cancelScheduled st tab) = cacheTtlMs st"
  "scanTiming (cancelScheduled st tab) = scanTiming st"
  "scanDelay (cancelScheduled st tab) = scanDelay st"
  by (simp_all add: cancelScheduled_def split: option.splits)

lemma countsNonneg_upd:
  "countsNonneg st \<Longrightarrow> 0 \<le> c \<Longrightarrow> countsByTab st' = (countsByTab st)(tab \<mapsto> c) \<Longrightarrow> countsNonneg st'"
  by (auto simp: countsNonneg_def)

lemma countsNonneg_del:
  "countsNonneg st \<Longrightarrow> countsByTab st' = (countsByTab st)(tab := None) \<Longrightarrow> countsNonneg st'"
  by (auto simp: countsNonneg_def)

lemma countsNonneg_same:
  "countsNonneg st \<Longrightarrow> countsByTab st' = countsByTab st \<Longrightarrow> countsNonneg st'"
  by (auto simp: countsNonneg_def)

lemma doScanForTab_countsNonneg:
  assumes "countsNonneg st"
  shows "countsNonneg (fst (doScanForTab st tab now env))"
proof (cases "gateOpen st tab now")
  case False
  then show ?thesis using assms by (simp add: doScanForTab_closed)
next
  case True
  show ?thesis
  proof (cases "tabOk env")
    case False
    with True assms show ?thesis
      by (simp add: doScanForTab_open countsNonneg_def)
  next
    case ok: True
    have "countsByTab (fst (doScanForTab st tab now env)) =
            (countsByTab st)(tab \<mapsto> countMatches (env_pageIds env)
               (registryUsed (st\<lparr>lastScanAt := (lastScanAt st)(tab \<mapsto> now)\<rparr>) env))"
      using True ok by (simp add: doScanForTab_open scanPipeline_counts)
    with assms countMatches_nonneg show ?thesis
      by (rule countsNonneg_upd)
  qed
qed

lemma scheduleScan_countsNonneg:
  assumes "countsNonneg st"
  shows "countsNonneg (fst (scheduleScan st tab now env))"
proof -
  have c: "countsNonneg (cancelScheduled st tab)"
    using assms by (rule countsNonneg_same) (simp add: cancelScheduled_frame)
  show ?thesis
    using c doScanForTab_countsNonneg [OF c, of tab now env]
    by (auto simp: scheduleScan_def Let_def case_prod_beta countsNonneg_def)
qed

lemma timerFired_countsNonneg:
  assumes "countsNonneg st"
  shows "countsNonneg (fst (timerFired st h now env))"
proof (cases "find (\<lambda>(h', due, tab). h' = h) (pendingTimeouts st)")
  case None
  then show ?thesis using assms by (simp add: timerFired_def)
next
  case (Some a)
  obtain h' due tab where a: "a = (h', due, tab)" by (cases a)
  let ?s1 = "st\<lparr>pendingTimeouts := filter (\<lambda>(h', due, tab). h' \<noteq> h) (pendingTimeouts st),
                 scheduledTimers := (scheduledTimers st)(tab := None)\<rparr>"
  have "countsNonneg ?s1"
    using assms by (simp add: countsNonneg_def)
  from doScanForTab_countsNonneg [OF this, of tab now env] show ?thesis
    using Some a by (simp add: timerFired_def Let_def case_prod_beta)
qed

lemma applyBadgeForTab_countsNonneg:
  "countsNonneg st \<Longrightarrow> countsNonneg (applyBadgeForTab st tab)"
  by (erule countsNonneg_same) (simp add: applyBadgeForTab_frame)

lemma onActivated_countsNonneg:
  "countsNonneg st \<Longrightarrow> countsNonneg (fst (onActivated st tab now env))"
proof (cases "badgeEnabled st")
  case False
  assume "countsNonneg st"
  then show ?thesis using False by (simp add: onActivated_def countsNonneg_def)
next
  case True
  assume "countsNonneg st"
  then have "countsNonneg (applyBadgeForTab st tab)"
    by (rule applyBadgeForTab_countsNonneg)
  then show ?thesis
    using True by (simp add: onActivated_def scheduleScan_countsNonneg)
qed

lemma onUpdated_countsNonneg:
  assumes "countsNonneg st"
  shows "countsNonneg (fst (onUpdated st tab ci now env))"
proof (cases "badgeEnabled st")
  case False
  then show ?thesis using assms by (simp add: onUpdated_def countsNonneg_def)
next
  case True
  define s1 where "s1 = cancelScheduled (st\<lparr>countsByTab := (countsByTab st)(tab := None)\<rparr>) tab"
  have n1: "countsNonneg s1"
    using assms by (rule countsNonneg_del) (simp add: s1_def cancelScheduled_frame)
  have n2: "countsNonneg (fst (scheduleScan s tab now env))" if "countsNonneg s" for s
    using that by (rule scheduleScan_countsNonneg)
  show ?thesis
    using True assms n1 n2 [OF n1] n2 [OF assms]
    by (auto simp: onUpdated_def Let_def s1_def [symmetric] case_prod_beta
        intro: applyBadgeForTab_countsNonneg)
qed

lemma onRemoved_countsNonneg: "countsNonneg st \<Longrightarrow> countsNonneg (onRemoved st tab)"
  by (auto simp: onRemoved_def countsNonneg_def cancelScheduled_frame)

lemma settled_countsNonneg:
  "countsNonneg st \<Longrightarrow> countsNonneg (getSellersCache_settled st now net t)"
  by (auto simp: getSellersCache_settled_def countsNonneg_def fetchAndCacheSellers_frame)

lemma refresh_countsNonneg:
  "countsNonneg st \<Longrightarrow> countsNonneg (fst (onMessage_refreshSellers st net now))"
  by (auto simp: onMessage_refreshSellers_def countsNonneg_def fetchAndCacheSellers_frame)

lemma setBadge_countsNonneg: "countsNonneg st \<Longrightarrow> countsNonneg (onMessage_setBadge st v)"
  by (auto simp: onMessage_setBadge_def countsNonneg_def Let_def)

lemma scanResult_counts:
  "countsByTab (onMessage_scanResult st (Some tab) v active) = (countsByTab st)(tab \<mapsto> clampCount v)"
  "countsByTab (onMessage_scanResult st None v active) = countsByTab st"
  by (simp_all add: onMessage_scanResult_def Let_def applyBadgeForTab_frame)

lemma scanResult_countsNonneg:
  "countsNonneg st \<Longrightarrow> countsNonneg (onMessage_scanResult st sender v active)"
proof (cases sender)
  case None
  assume "countsNonneg st"
  then show ?thesis using None by (auto simp: countsNonneg_def scanResult_counts)
next
  case (Some tab)
  assume "countsNonneg st"
  then show ?thesis
    using Some clampCount_nonneg [of v] by (auto simp: countsNonneg_def scanResult_counts)
qed

lemma step_countsNonneg: "countsNonneg st \<Longrightarrow> countsNonneg (fst (step st e))"
  by (cases e)
     (simp_all add: onActivated_countsNonneg onUpdated_countsNonneg onRemoved_countsNonneg
       timerFired_countsNonneg settled_countsNonneg refresh_countsNonneg
       setBadge_countsNonneg scanResult_countsNonneg)

lemma run_countsNonneg: "countsNonneg st \<Longrightarrow> countsNonneg (fst (run st es))"
proof (induction es arbitrary: st)
  case Nil
  then show ?case by simp
next
  case (Cons e es)
  from Cons.IH [OF step_countsNonneg [OF Cons.prems, of e]] show ?case
    by (simp add: Let_def case_prod_beta)
qed

subsection \<open>Badge text\<close>

lemma setBadge_text:
  "badgeText (onMessage_setBadge st v) =
     (if badgeEnabled st \<and> 0 < clampCount v then String_js (JNum (clampCount v)) else [])"
  by (simp add: onMessage_setBadge_def Let_def showInt_nonempty)

lemma applyBadgeForTab_text:
  "badgeText (applyBadgeForTab st tab) =
     (case countsByTab st tab of
        Some c \<Rightarrow> if badgeEnabled st \<and> 0 < c then String_js (JNum c) else []
      | None \<Rightarrow> [])"
  by (simp add: applyBadgeForTab_def Let_def showInt_nonempty split: option.splits)

lemma scanResult_text:
  "badgeText (onMessage_scanResult st (Some tab) v (Some tab)) =
     (if badgeEnabled st \<and> 0 < clampCount v then String_js (JNum (clampCount v)) else [])"
  by (simp add: onMessage_scanResult_def Let_def applyBadgeForTab_text)

lemma countsNonneg_init: "countsNonneg initState"
  by (simp add: countsNonneg_def initState_def)

subsection \<open>With the badge disabled\<close>

lemma disabled_handlers:
  assumes "\<not> badgeEnabled st"
  shows "onActivated st tab now env = (st\<lparr>badgeText := []\<rparr>, None)"
    and "onUpdated st tab ci now env = (st\<lparr>badgeText := []\<rparr>, None)"
    and "scheduleScan st tab now env = (cancelScheduled st tab, None)"
    and "doScanForTab st tab now env = (st, Disabled)"
    and "applyBadgeForTab st tab = st\<lparr>badgeText := []\<rparr>"
  using assms
  by (simp_all add: onActivated_def onUpdated_def scheduleScan_def doScanForTab_def
      applyBadgeForTab_def cancelScheduled_frame Let_def)

lemma disabled_timerFired:
  assumes "\<not> badgeEnabled st"
  shows "\<not> scanRan (snd (timerFired st h now env)) \<and>
         quietSince st (fst (timerFired st h now env)) \<and>
         badgeText (fst (timerFired st h now env)) = badgeText st"
proof (cases "find (\<lambda>(h', due, tab). h' = h) (pendingTimeouts st)")
  case None
  then show ?thesis using assms by (simp add: timerFired_def quietSince_def)
next
  case (Some a)
  obtain h' due tab where a: "a = (h', due, tab)" by (cases a)
  show ?thesis
    using Some a assms
    by (simp add: timerFired_def Let_def doScanForTab_def quietSince_def)
qed

lemma disabled_step:
  assumes "\<not> badgeEnabled st" "isSchedulerEvent e"
  shows "\<not> scanRan (snd (step st e)) \<and> quietSince st (fst (step st e)) \<and>
         badgeText (fst (step st e)) = (if isTabEvent e then [] else badgeText st)"
  using assms disabled_timerFired [OF assms(1)]
  by (cases e) (simp_all add: disabled_handlers quietSince_def)

lemma quietSince_trans: "quietSince a b \<Longrightarrow> quietSince b c \<Longrightarrow> quietSince a c"
  by (auto simp: quietSince_def)

lemma run_Cons:
  "fst (run st (e # es)) = fst (run (fst (step st e)) es)"
  "snd (run st (e # es)) = snd (step st e) # snd (run (fst (step st e)) es)"
  by (simp_all add: Let_def case_prod_beta)

lemma disabled_run:
  assumes "\<not> badgeEnabled st" "\<forall>e \<in> set es. isSchedulerEvent e"
  shows "(\<forall>r \<in> set (snd (run st es)). \<not> scanRan r) \<and> quietSince st (fst (run st es)) \<and>
         badgeText (fst (run st es)) = (if \<exists>e \<in> set es. isTabEvent e then [] else badgeText st)"
  using assms
proof (induction es arbitrary: st)
  case Nil
  then show ?case by (simp add: quietSince_def)
next
  case (Cons e es)
  let ?s1 = "fst (step st e)"
  have s: "\<not> scanRan (snd (step st e))" "quietSince st ?s1"
    "badgeText ?s1 = (if isTabEvent e then [] else badgeText st)"
    using disabled_step [of st e] Cons.prems by simp_all
  have d1: "\<not> badgeEnabled ?s1"
    using s(2) by (simp add: quietSince_def)
  have ih: "(\<forall>r \<in> set (snd (run ?s1 es)). \<not> scanRan r)" "quietSince ?s1 (fst (run ?s1 es))"
    "badgeText (fst (run ?s1 es)) = (if \<exists>e \<in> set es. isTabEvent e then [] else badgeText ?s1)"
    using Cons.IH [OF d1] Cons.prems(2) by simp_all
  show ?case
    using s ih quietSince_trans [OF s(2) ih(2)]
    by (simp add: run_Cons del: run.simps)
qed

subsection \<open>Timer bookkeeping\<close>

lemma timersOk_init: "timersOk initState"
  by (simp add: timersOk_def initState_def)

lemma timersOk_frame:
  "timersOk st \<Longrightarrow> pendingTimeouts st' = pendingTimeouts st \<Longrightarrow>
   scheduledTimers st' = scheduledTimers st \<Longrightarrow> lastHandle st' = lastHandle st \<Longrightarrow> timersOk st'"
  by (simp add: timersOk_def timersFor_def)

lemma timersOk_entry:
  assumes "timersOk st" "(h, due, tab) \<in> set (pendingTimeouts st)"
  shows "0 < h" "h \<le> lastHandle st" "scheduledTimers st tab = Some h"
  using assms by (auto simp: timersOk_def)

lemma timersOk_same_handle:
  assumes "timersOk st" "(h, due, tab) \<in> set (pendingTimeouts st)"
    "(h, due', tab') \<in> set (pendingTimeouts st)"
  shows "due' = due \<and> tab' = tab"
proof -
  have "distinct (map fst (pendingTimeouts st))"
    using assms(1) by (simp add: timersOk_def)
  from eq_key_imp_eq_value [OF this assms(2) assms(3)] show ?thesis by simp
qed

lemma timersOk_pending:
  assumes "timersOk st" "scheduledTimers st tab = Some h"
  shows "\<exists>due. (h, due, tab) \<in> set (pendingTimeouts st)"
  using assms by (fastforce simp: timersOk_def timersFor_def)

lemma timersFor_mem:
  "(h, due, tab) \<in> set (timersFor st t) \<longleftrightarrow> (h, due, tab) \<in> set (pendingTimeouts st) \<and> tab = t"
  by (auto simp: timersFor_def)

text \<open>Removing the timer with a given handle from a consistent state.\<close>

lemma timersOk_remove:
  assumes ok: "timersOk st" and sched: "scheduledTimers st tab = Some h"
  defines "st1 \<equiv> st\<lparr>pendingTimeouts := filter (\<lambda>(h', due, tab). h' \<noteq> h) (pendingTimeouts st),
                      scheduledTimers := (scheduledTimers st)(tab := None)\<rparr>"
  shows "timersOk st1" and "timersFor st1 tab = []"
    and "h \<notin> fst ` set (pendingTimeouts st1)"
proof -
  obtain due where m: "(h, due, tab) \<in> set (pendingTimeouts st)"
    using timersOk_pending [OF ok sched] by blast
  have other: "tab' \<noteq> tab \<and> h' \<noteq> h \<and> scheduledTimers st tab' = Some h'"
    if "(h', due', tab') \<in> set (pendingTimeouts st)" "h' \<noteq> h" for h' due' tab'
  proof -
    have s: "scheduledTimers st tab' = Some h'"
      using timersOk_entry(3) [OF ok that(1)] .
    with sched that(2) show ?thesis by auto
  qed
  have same: "tab' = tab"
    if "(h, due', tab') \<in> set (pendingTimeouts st)" for due' tab'
    using timersOk_same_handle [OF ok m that] by simp
  show "h \<notin> fst ` set (pendingTimeouts st1)"
    by (auto simp: st1_def)
  show "timersFor st1 tab = []"
    using other by (auto simp: st1_def timersFor_def filter_empty_conv)
  have d: "distinct (map fst (pendingTimeouts st1))"
    using ok by (simp add: st1_def timersOk_def distinct_map_filter)
  have e: "0 < h' \<and> h' \<le> lastHandle st1 \<and> scheduledTimers st1 tab' = Some h'"
    if "(h', due', tab') \<in> set (pendingTimeouts st1)" for h' due' tab'
  proof -
    from that have in0: "(h', due', tab') \<in> set (pendingTimeouts st)" and ne: "h' \<noteq> h"
      by (auto simp: st1_def)
    from other [OF in0 ne] timersOk_entry(1,2) [OF ok in0] show ?thesis
      by (simp add: st1_def)
  qed
  have f: "h' \<in> fst ` set (timersFor st1 tab')"
    if "scheduledTimers st1 tab' = Some h'" for tab' h'
  proof -
    from that have ne: "tab' \<noteq> tab" and s: "scheduledTimers st tab' = Some h'"
      by (auto simp: st1_def split: if_splits)
    obtain due' where in0: "(h', due', tab') \<in> set (pendingTimeouts st)"
      using timersOk_pending [OF ok s] by blast
    have "h' \<noteq> h"
      using same in0 ne by auto
    with in0 have "(h', due', tab') \<in> set (timersFor st1 tab')"
      by (simp add: timersFor_mem st1_def)
    then show ?thesis by force
  qed
  show "timersOk st1"
    unfolding timersOk_def using d e f by auto
qed

lemma cancelScheduled_pending:
  assumes "timersOk st" "scheduledTimers st tab = Some h"
  shows "cancelScheduled st tab =
           st\<lparr>pendingTimeouts := filter (\<lambda>(h', due, tab). h' \<noteq> h) (pendingTimeouts st),
              scheduledTimers := (scheduledTimers st)(tab := None)\<rparr>"
proof -
  obtain due where "(h, due, tab) \<in> set (pendingTimeouts st)"
    using timersOk_pending [OF assms] by blast
  from timersOk_entry(1) [OF assms(1) this] assms(2) show ?thesis
    by (simp add: cancelScheduled_def)
qed

lemma timersOk_none:
  assumes "timersOk st" "scheduledTimers st tab = None"
  shows "timersFor st tab = []"
proof -
  have "False" if "(h, due, tab) \<in> set (pendingTimeouts st)" for h due
    using timersOk_entry(3) [OF assms(1) that] assms(2) by simp
  then show ?thesis
    by (auto simp: timersFor_def filter_empty_conv)
qed

lemma cancelScheduled_timersOk:
  assumes "timersOk st"
  shows "timersOk (cancelScheduled st tab)"
    and "timersFor (cancelScheduled st tab) tab = []"
    and "scheduledTimers (cancelScheduled st tab) tab = None"
proof -
  show "timersOk (cancelScheduled st tab)"
  proof (cases "scheduledTimers st tab")
    case None
    then show ?thesis using assms by (simp add: cancelScheduled_def)
  next
    case (Some h)
    show ?thesis
      using timersOk_remove(1) [OF assms Some] by (simp add: cancelScheduled_pending [OF assms Some])
  qed
  show "timersFor (cancelScheduled st tab) tab = []"
  proof (cases "scheduledTimers st tab")
    case None
    then show ?thesis using timersOk_none [OF assms None] by (simp add: cancelScheduled_def)
  next
    case (Some h)
    show ?thesis
      using timersOk_remove(2) [OF assms Some] by (simp add: cancelScheduled_pending [OF assms Some])
  qed
  show "scheduledTimers (cancelScheduled st tab) tab = None"
  proof (cases "scheduledTimers st tab")
    case None
    then show ?thesis by (simp add: cancelScheduled_def)
  next
    case (Some h)
    show ?thesis
      by (simp add: cancelScheduled_pending [OF assms Some])
  qed
qed

lemma timersOk_add:
  fixes due :: int
  assumes ok: "timersOk st" and none: "scheduledTimers st tab = None"
  defines "st1 \<equiv> st\<lparr>scheduledTimers := (scheduledTimers st)(tab \<mapsto> Suc (lastHandle st)),
                      pendingTimeouts := pendingTimeouts st @ [(Suc (lastHandle st), due, tab)],
                      lastHandle := Suc (lastHandle st)\<rparr>"
  shows "timersOk st1" and "timersFor st1 tab = [(Suc (lastHandle st), due, tab)]"
proof -
  have le: "h \<le> lastHandle st" if "(h, d, t) \<in> set (pendingTimeouts st)" for h d t
    using timersOk_entry(2) [OF ok that] .
  have fresh: "Suc (lastHandle st) \<notin> fst ` set (pendingTimeouts st)"
    using le by force
  have nt: "t \<noteq> tab" if "(h, d, t) \<in> set (pendingTimeouts st)" for h d t
    using timersOk_entry(3) [OF ok that] none by auto
  show "timersFor st1 tab = [(Suc (lastHandle st), due, tab)]"
    using nt by (auto simp: st1_def timersFor_def filter_empty_conv)
  have d: "distinct (map fst (pendingTimeouts st1))"
    using ok fresh by (simp add: st1_def timersOk_def)
  have e: "0 < h \<and> h \<le> lastHandle st1 \<and> scheduledTimers st1 t = Some h"
    if "(h, d, t) \<in> set (pendingTimeouts st1)" for h d t
  proof (cases "(h, d, t) \<in> set (pendingTimeouts st)")
    case True
    from timersOk_entry [OF ok True] nt [OF True] show ?thesis
      by (simp add: st1_def)
  next
    case False
    with that show ?thesis by (simp add: st1_def)
  qed
  have f: "h \<in> fst ` set (timersFor st1 t)" if "scheduledTimers st1 t = Some h" for t h
  proof (cases "t = tab")
    case True
    with that show ?thesis by (simp add: st1_def timersFor_def)
  next
    case False
    with that have "scheduledTimers st t = Some h" by (simp add: st1_def)
    then obtain d where "(h, d, t) \<in> set (pendingTimeouts st)"
      using timersOk_pending [OF ok] by blast
    then have "(h, d, t) \<in> set (timersFor st1 t)"
      by (simp add: timersFor_mem st1_def)
    then show ?thesis by force
  qed
  show "timersOk st1"
    unfolding timersOk_def using d e f by auto
qed

lemma doScanForTab_timersOk: "timersOk st \<Longrightarrow> timersOk (fst (doScanForTab st tab now env))"
  by (erule timersOk_frame) (simp_all add: doScanForTab_frame)

lemma doScanForTab_timersFor: "timersFor (fst (doScanForTab st tab now env)) t = timersFor st t"
  by (simp add: timersFor_def doScanForTab_frame)

lemma delayMsOf_cancel: "delayMsOf (cancelScheduled st tab) = delayMsOf st"
  by (simp add: delayMsOf_def cancelScheduled_frame)

lemma scheduleScan_delayed:
  assumes "badgeEnabled st" "delayMsOf st \<noteq> 0"
  shows "scheduleScan st tab now env =
     ((cancelScheduled st tab)
        \<lparr>scheduledTimers := (scheduledTimers (cancelScheduled st tab))
                               (tab \<mapsto> Suc (lastHandle (cancelScheduled st tab))),
         pendingTimeouts := pendingTimeouts (cancelScheduled st tab) @
            [(Suc (lastHandle (cancelScheduled st tab)), now + delayMsOf st, tab)],
         lastHandle := Suc (lastHandle (cancelScheduled st tab))\<rparr>, None)"
  using assms
  by (simp add: scheduleScan_def delayMsOf_cancel cancelScheduled_frame Let_def)

lemma scheduleScan_immediate:
  assumes "badgeEnabled st" "delayMsOf st = 0"
  shows "scheduleScan st tab now env =
           (fst (doScanForTab (cancelScheduled st tab) tab now env),
            Some (snd (doScanForTab (cancelScheduled st tab) tab now env)))"
  using assms
  by (simp add: scheduleScan_def delayMsOf_cancel cancelScheduled_frame Let_def case_prod_beta)

lemma scheduleScan_timersOk:
  assumes "timersOk st"
  shows "timersOk (fst (scheduleScan st tab now env))"
proof (cases "badgeEnabled st")
  case False
  then show ?thesis
    using cancelScheduled_timersOk(1) [OF assms] by (simp add: disabled_handlers)
next
  case True
  show ?thesis
  proof (cases "delayMsOf st = 0")
    case z: True
    show ?thesis
      using cancelScheduled_timersOk(1) [OF assms, of tab]
      by (simp add: scheduleScan_immediate [OF True z] doScanForTab_timersOk)
  next
    case nz: False
    show ?thesis
      using timersOk_add(1) [OF cancelScheduled_timersOk(1) [OF assms, of tab]
              cancelScheduled_timersOk(3) [OF assms, of tab]]
      by (simp add: scheduleScan_delayed [OF True nz])
  qed
qed

lemma find_handle:
  "find (\<lambda>(h', due, tab). h' = h) xs = Some a \<Longrightarrow>
     \<exists>due tab. a = (h, due, tab) \<and> (h, due, tab) \<in> set xs"
  by (induction xs) (auto split: if_splits)

lemma timerFired_unfold:
  assumes "timersOk st" "(h, due, tab) \<in> set (pendingTimeouts st)"
  shows "timerFired st h now env =
     (fst (doScanForTab
        (st\<lparr>pendingTimeouts := filter (\<lambda>(h', due, tab). h' \<noteq> h) (pendingTimeouts st),
            scheduledTimers := (scheduledTimers st)(tab := None)\<rparr>) tab now env),
      Some (snd (doScanForTab
        (st\<lparr>pendingTimeouts := filter (\<lambda>(h', due, tab). h' \<noteq> h) (pendingTimeouts st),
            scheduledTimers := (scheduledTimers st)(tab := None)\<rparr>) tab now env)))"
proof -
  have "find (\<lambda>(h', due, tab). h' = h) (pendingTimeouts st) \<noteq> None"
    using assms(2) by (auto simp: find_None_iff)
  then obtain a where a: "find (\<lambda>(h', due, tab). h' = h) (pendingTimeouts st) = Some a"
    by auto
  from find_handle [OF a] obtain due' tab' where
    b: "a = (h, due', tab')" "(h, due', tab') \<in> set (pendingTimeouts st)" by blast
  from timersOk_same_handle [OF assms(1) assms(2) b(2)] have "tab' = tab" by simp
  with a b show ?thesis
    by (simp add: timerFired_def Let_def case_prod_beta)
qed

lemma timerFired_absent:
  "h \<notin> fst ` set (pendingTimeouts st) \<Longrightarrow> timerFired st h now env = (st, None)"
proof -
  assume "h \<notin> fst ` set (pendingTimeouts st)"
  then have "find (\<lambda>(h', due, tab). h' = h) (pendingTimeouts st) = None"
    by (force simp: find_None_iff)
  then show ?thesis by (simp add: timerFired_def)
qed

lemma timerFired_timersOk:
  assumes "timersOk st"
  shows "timersOk (fst (timerFired st h now env))"
proof (cases "h \<in> fst ` set (pendingTimeouts st)")
  case False
  then show ?thesis using assms by (simp add: timerFired_absent)
next
  case True
  then obtain due tab where m: "(h, due, tab) \<in> set (pendingTimeouts st)" by force
  from timersOk_remove(1) [OF assms timersOk_entry(3) [OF assms m]] show ?thesis
    by (simp add: timerFired_unfold [OF assms m] doScanForTab_timersOk)
qed

lemma applyBadgeForTab_timersOk: "timersOk st \<Longrightarrow> timersOk (applyBadgeForTab st tab)"
  by (erule timersOk_frame) (simp_all add: applyBadgeForTab_frame)

lemma onActivated_timersOk: "timersOk st \<Longrightarrow> timersOk (fst (onActivated st tab now env))"
  by (cases "badgeEnabled st")
     (auto simp: onActivated_def scheduleScan_timersOk applyBadgeForTab_timersOk
       elim: timersOk_frame)

lemma onUpdated_timersOk:
  assumes "timersOk st"
  shows "timersOk (fst (onUpdated st tab ci now env))"
proof (cases "badgeEnabled st")
  case False
  then show ?thesis using assms by (auto simp: onUpdated_def elim: timersOk_frame)
next
  case True
  have c: "timersOk (st\<lparr>countsByTab := (countsByTab st)(tab := None)\<rparr>)"
    using assms by (rule timersOk_frame) simp_all
  note n1 = cancelScheduled_timersOk(1) [OF c, of tab]
  show ?thesis
    using True assms n1 scheduleScan_timersOk [OF n1, of tab now env]
      scheduleScan_timersOk [OF assms, of tab now env]
    by (auto simp: onUpdated_def Let_def case_prod_beta intro: applyBadgeForTab_timersOk)
qed

lemma onRemoved_timersOk: "timersOk st \<Longrightarrow> timersOk (onRemoved st tab)"
proof -
  assume "timersOk st"
  then have "timersOk (st\<lparr>countsByTab := (countsByTab st)(tab := None),
                          lastScanAt := (lastScanAt st)(tab := None)\<rparr>)"
    by (rule timersOk_frame) simp_all
  from cancelScheduled_timersOk(1) [OF this] show ?thesis
    by (simp add: onRemoved_def)
qed

lemma step_timersOk: "timersOk st \<Longrightarrow> timersOk (fst (step st e))"
proof (cases e)
  case (MsgGetSellersCache now net t)
  assume "timersOk st"
  then show ?thesis
    using MsgGetSellersCache
    by (auto simp: getSellersCache_settled_def fetchAndCacheSellers_frame elim!: timersOk_frame)
next
  case (MsgRefreshSellers net now)
  assume "timersOk st"
  then show ?thesis
    using MsgRefreshSellers
    by (auto simp: onMessage_refreshSellers_def fetchAndCacheSellers_frame elim!: timersOk_frame)
next
  case (MsgSetBadge v)
  assume "timersOk st"
  then show ?thesis
    using MsgSetBadge by (auto simp: onMessage_setBadge_def Let_def elim!: timersOk_frame)
next
  case (MsgScanResult sender v active)
  assume "timersOk st"
  then show ?thesis
    using MsgScanResult
    by (auto simp: onMessage_scanResult_def Let_def applyBadgeForTab_frame
        split: option.splits elim!: timersOk_frame)
qed (simp_all add: onActivated_timersOk onUpdated_timersOk onRemoved_timersOk timerFired_timersOk)

lemma run_timersOk: "timersOk st \<Longrightarrow> timersOk (fst (run st es))"
proof (induction es arbitrary: st)
  case Nil
  then show ?case by simp
next
  case (Cons e es)
  from Cons.IH [OF step_timersOk [OF Cons.prems, of e]] show ?case
    by (simp add: run_Cons del: run.simps)
qed

lemma cancelScheduled_badge:
  "pendingTimeouts (cancelScheduled (applyBadgeForTab st t) tab) =
     pendingTimeouts (cancelScheduled st tab)"
  "scheduledTimers (cancelScheduled (applyBadgeForTab st t) tab) =
     scheduledTimers (cancelScheduled st tab)"
  by (simp_all add: cancelScheduled_def applyBadgeForTab_frame split: option.splits)

lemma delayMsOf_badge: "delayMsOf (applyBadgeForTab st t) = delayMsOf st"
  by (simp add: delayMsOf_def applyBadgeForTab_frame)

lemma pendingState_ok: "timersOk pendingState"
  by (simp add: timersOk_def timersFor_def pendingState_def delayedState_def initState_def)

lemma first_trigger:
  "scheduleScan delayedState 7 100000 sampleEnv = (pendingState, None)"
  by (simp add: scheduleScan_def cancelScheduled_def delayMsOf_def Let_def
      pendingState_def delayedState_def initState_def)

subsection \<open>Triggers and the cooldown\<close>

lemma gateOpen_cong:
  "lastScanAt st' tab = lastScanAt st tab \<Longrightarrow> badgeEnabled st' = badgeEnabled st \<Longrightarrow>
   gateOpen st' tab now = gateOpen st tab now"
  by (simp add: gateOpen_def)

lemma scheduleScan_ran:
  "scanRan (snd (scheduleScan st tab now env)) \<longleftrightarrow>
     delayMsOf st = 0 \<and> gateOpen st tab now"
proof (cases "badgeEnabled st")
  case False
  then show ?thesis by (simp add: disabled_handlers gateOpen_def)
next
  case True
  show ?thesis
  proof (cases "delayMsOf st = 0")
    case z: True
    have "gateOpen (cancelScheduled st tab) tab now = gateOpen st tab now"
      by (rule gateOpen_cong) (simp_all add: cancelScheduled_frame)
    then show ?thesis
      by (simp add: scheduleScan_immediate [OF True z] doScanForTab_passed z)
  next
    case nz: False
    then show ?thesis
      by (simp add: scheduleScan_delayed [OF True nz])
  qed
qed

lemma scheduleScan_stamp:
  assumes "scanRan (snd (scheduleScan st tab now env))"
  shows "lastScanAt (fst (scheduleScan st tab now env)) tab = Some now"
proof -
  from assms have z: "delayMsOf st = 0" and g: "gateOpen st tab now"
    by (simp_all add: scheduleScan_ran)
  then have en: "badgeEnabled st" by (simp add: gateOpen_def)
  have "gateOpen (cancelScheduled st tab) tab now"
    using g gateOpen_cong [of "cancelScheduled st tab" tab st now]
    by (simp add: cancelScheduled_frame)
  from doScanForTab_stamp [OF this, of env] show ?thesis
    by (simp add: scheduleScan_immediate [OF en z])
qed

lemma scheduleScan_lastScanAt_other:
  "\<not> scanRan (snd (scheduleScan st tab now env)) \<Longrightarrow>
     lastScanAt (fst (scheduleScan st tab now env)) = lastScanAt st"
proof (cases "badgeEnabled st")
  case False
  then show ?thesis by (simp add: disabled_handlers cancelScheduled_frame)
next
  case True
  assume nr: "\<not> scanRan (snd (scheduleScan st tab now env))"
  show ?thesis
  proof (cases "delayMsOf st = 0")
    case z: True
    with nr have "\<not> gateOpen st tab now" by (simp add: scheduleScan_ran)
    then have "\<not> gateOpen (cancelScheduled st tab) tab now"
      using gateOpen_cong [of "cancelScheduled st tab" tab st now]
      by (simp add: cancelScheduled_frame)
    then show ?thesis
      by (simp add: scheduleScan_immediate [OF True z] doScanForTab_closed cancelScheduled_frame)
  next
    case nz: False
    then show ?thesis
      by (simp add: scheduleScan_delayed [OF True nz] cancelScheduled_frame)
  qed
qed

subsection \<open>Every call of the scan goes through the gate\<close>

lemma timerFired_found:
  assumes "find (\<lambda>(h', due, tab). h' = h) (pendingTimeouts st) = Some (h', due, tab)"
  shows "timerFired st h now env =
     (fst (doScanForTab
        (st\<lparr>pendingTimeouts := filter (\<lambda>(h', due, tab). h' \<noteq> h) (pendingTimeouts st),
            scheduledTimers := (scheduledTimers st)(tab := None)\<rparr>) tab now env),
      Some (snd (doScanForTab
        (st\<lparr>pendingTimeouts := filter (\<lambda>(h', due, tab). h' \<noteq> h) (pendingTimeouts st),
            scheduledTimers := (scheduledTimers st)(tab := None)\<rparr>) tab now env)))"
  using assms by (simp add: timerFired_def Let_def case_prod_beta)

lemma onUpdated_enabled:
  assumes "badgeEnabled st"
  shows "onUpdated st tab ci now env =
     (let navigating = (ci_status ci = Some ''loading'' \<or>
                        (case ci_url ci of None \<Rightarrow> False | Some u \<Rightarrow> u \<noteq> []));
          s1 = (if navigating then
                  cancelScheduled (st\<lparr>countsByTab := (countsByTab st)(tab := None)\<rparr>) tab
                else st);
          sr = (if ci_status ci = Some ''complete'' \<and> env_active env = Some tab
                then scheduleScan s1 tab now env else (s1, None))
      in (if navigating \<and> env_active env = Some tab then applyBadgeForTab (fst sr) tab
          else fst sr, snd sr))"
  using assms by (simp add: onUpdated_def Let_def case_prod_beta)

lemma scanCall_ran:
  assumes "scanCall st e = Some (tab, t)"
  shows "scanRan (snd (step st e)) = gateOpen st tab t"
proof (cases e)
  case (Activated tabId now env)
  with assms have a: "badgeEnabled st" "delayMsOf st = 0" "tabId = tab" "now = t"
    by (simp_all split: if_splits)
  have "gateOpen (applyBadgeForTab st tab) tab t = gateOpen st tab t"
    by (rule gateOpen_cong) (simp_all add: applyBadgeForTab_frame)
  then show ?thesis
    using Activated a by (simp add: onActivated_def scheduleScan_ran delayMsOf_badge)
next
  case (Updated tabId ci now env)
  with assms have a: "badgeEnabled st" "delayMsOf st = 0" "tabId = tab" "now = t"
    "ci_status ci = Some ''complete''" "env_active env = Some tab"
    by (simp_all split: if_splits)
  let ?c = "cancelScheduled (st\<lparr>countsByTab := (countsByTab st)(tab := None)\<rparr>) tab"
  have g: "gateOpen ?c tab t = gateOpen st tab t"
    by (rule gateOpen_cong) (simp_all add: cancelScheduled_frame)
  have "delayMsOf ?c = delayMsOf st"
    by (simp add: delayMsOf_def cancelScheduled_frame)
  with a(2) have d: "delayMsOf ?c = 0"
    by simp
  show ?thesis
    using Updated a g d
    by (simp add: onUpdated_enabled Let_def scheduleScan_ran)
next
  case (TimerFired h now env)
  with assms obtain h' due where
    f: "find (\<lambda>(h', due, tab). h' = h) (pendingTimeouts st) = Some (h', due, tab)" and "now = t"
    by (auto split: option.splits)
  have "gateOpen (st\<lparr>pendingTimeouts := filter (\<lambda>(h', due, tab). h' \<noteq> h) (pendingTimeouts st),
            scheduledTimers := (scheduledTimers st)(tab := None)\<rparr>) tab t = gateOpen st tab t"
    by (simp add: gateOpen_def)
  then show ?thesis
    using TimerFired \<open>now = t\<close> by (simp add: timerFired_found [OF f] doScanForTab_passed)
qed (use assms in simp_all)

lemma scanCall_stamp:
  assumes "scanCall st e = Some (tab, t)" "scanRan (snd (step st e))"
  shows "lastScanAt (fst (step st e)) tab = Some t"
proof (cases e)
  case (Activated tabId now env)
  with assms(1) have a: "badgeEnabled st" "tabId = tab" "now = t"
    by (simp_all split: if_splits)
  from assms(2) Activated a
  have "scanRan (snd (scheduleScan (applyBadgeForTab st tab) tab t env))"
    by (simp add: onActivated_def)
  from scheduleScan_stamp [OF this] show ?thesis
    using Activated a by (simp add: onActivated_def)
next
  case (Updated tabId ci now env)
  with assms(1) have a: "badgeEnabled st" "tabId = tab" "now = t"
    "ci_status ci = Some ''complete''" "env_active env = Some tab"
    by (simp_all split: if_splits)
  show ?thesis
  proof (cases "case ci_url ci of None \<Rightarrow> False | Some u \<Rightarrow> u \<noteq> []")
    case True
    let ?c = "cancelScheduled (st\<lparr>countsByTab := (countsByTab st)(tab := None)\<rparr>) tab"
    from assms(2) Updated a True have "scanRan (snd (scheduleScan ?c tab t env))"
      by (simp add: onUpdated_enabled Let_def)
    from scheduleScan_stamp [OF this] show ?thesis
      using Updated a True
      by (simp add: onUpdated_enabled Let_def applyBadgeForTab_frame)
  next
    case False
    from assms(2) Updated a False have "scanRan (snd (scheduleScan st tab t env))"
      by (simp add: onUpdated_enabled Let_def)
    from scheduleScan_stamp [OF this] show ?thesis
      using Updated a False
      by (simp add: onUpdated_enabled Let_def)
  qed
next
  case (TimerFired h now env)
  with assms(1) obtain h' due where
    f: "find (\<lambda>(h', due, tab). h' = h) (pendingTimeouts st) = Some (h', due, tab)" and "now = t"
    by (auto split: option.splits)
  let ?s1 = "st\<lparr>pendingTimeouts := filter (\<lambda>(h', due, tab). h' \<noteq> h) (pendingTimeouts st),
            scheduledTimers := (scheduledTimers st)(tab := None)\<rparr>"
  from assms(2) TimerFired \<open>now = t\<close> have "gateOpen ?s1 tab t"
    by (simp add: timerFired_found [OF f] doScanForTab_passed)
  from doScanForTab_stamp [OF this, of env] show ?thesis
    using TimerFired \<open>now = t\<close> by (simp add: timerFired_found [OF f])
qed (use assms in simp_all)

lemma ran_scanCall:
  assumes "scanRan (snd (step st e))"
  shows "scanCall st e \<noteq> None"
proof (cases e)
  case (Activated tabId now env)
  have en: "badgeEnabled st"
    using assms Activated by (auto simp: onActivated_def split: if_splits)
  with assms Activated show ?thesis
    by (simp add: onActivated_def scheduleScan_ran delayMsOf_badge)
next
  case (Updated tabId ci now env)
  have en: "badgeEnabled st"
    using assms Updated by (auto simp: onUpdated_def split: if_splits)
  from assms Updated en show ?thesis
    by (auto simp: onUpdated_enabled Let_def scheduleScan_ran delayMsOf_def cancelScheduled_frame
        split: if_splits)
next
  case (TimerFired h now env)
  with assms show ?thesis
    by (auto simp: timerFired_def split: option.splits)
qed (use assms in simp_all)

lemma scanCall_closed:
  assumes "scanCall st e = Some (tab, t)" "lastScanAt st tab = Some t0"
    "t - t0 < SCAN_COOLDOWN_MS"
  shows "\<not> scanRan (snd (step st e))"
  using assms(2,3) by (simp add: scanCall_ran [OF assms(1)] gateOpen_def)

subsection \<open>Evaluating runs of events\<close>

lemmas eval_defs =
  onActivated_def onUpdated_def scheduleScan_def cancelScheduled_def delayMsOf_def timerFired_def
  doScanForTab_def scanPipeline_def tabOk_def isHttpUrl_def lowerAscii_simps
  applyBadgeForTab_def getCachedSellers_def isStale_def fetchAndCacheSellers_def
  fetchWithTimeoutAndRetry_def fetchLoop.simps countMatches_def sellersSet_def
  showInt_def digits10.simps digitChar_def
  delayedState_def initState_def sampleEnv_def sampleRegistry_def envAt_def goneAt_def
  backgroundEnv_def pendingState_def
  SCAN_COOLDOWN_MS_def DEFAULT_SELLERS_URL_def FETCH_RETRIES_def FETCH_TIMEOUT_MS_def
  BADGE_BG_COLOR_def Let_def

lemma on_time:
  "run delayedState
     [Activated 7 100000 (envAt 100000), TimerFired 1 110000 (envAt 110000),
      Activated 7 159000 (envAt 159000)] =
   (rescheduledState, [None, Some (Matches 1), None])"
  by (simp add: eval_defs rescheduledState_def numeral_2_eq_2)

subsection \<open>More on timers, and the getSellersCache guard\<close>

lemma cancelScheduled_counts:
  "pendingTimeouts (cancelScheduled (st\<lparr>countsByTab := c\<rparr>) tab) =
     pendingTimeouts (cancelScheduled st tab)"
  "scheduledTimers (cancelScheduled (st\<lparr>countsByTab := c\<rparr>) tab) =
     scheduledTimers (cancelScheduled st tab)"
  by (simp_all add: cancelScheduled_def split: option.splits)

lemma cancelScheduled_idem:
  assumes "timersOk st"
  shows "cancelScheduled (cancelScheduled st tab) tab = cancelScheduled st tab"
  using cancelScheduled_timersOk(3) [OF assms, of tab]
  by (simp add: cancelScheduled_def [of "cancelScheduled st tab"])

lemma getSellersCache_guard:
  "fst (onMessage_getSellersCache st now) = getCachedSellers st \<and>
   (snd (onMessage_getSellersCache st now) \<longleftrightarrow>
      c_ts (getCachedSellers st) = 0 \<or> now - c_ts (getCachedSellers st) > cacheTtlMs st)"
  by (auto simp: onMessage_getSellersCache_def Let_def)

section \<open>The properties of the specification\<close>

text \<open>
  C1. For every list of page ids and every registry sequence, the match count is the number
  of page ids whose string form is a member of the set of string forms of the registry's
  \<open>seller_id\<close> fields; string forms are compared as whole strings. The count is a function
  of the two arguments alone. A scan that gets past the gate and the tab check returns this
  count, for the page ids extracted and the registry it used, and stores it for the tab.
\<close>

theorem C1_match_count:
  "countMatches P R =
     int (length (filter (\<lambda>i. String_js i \<in> (\<lambda>r. String_js (seller_id r)) ` set R) P)) \<and>
   (gateOpen st tab now \<and> tabOk env \<longrightarrow>
      js_return (snd (doScanForTab st tab now env)) =
        Some (countMatches (env_pageIds env) (registryUsed st env)) \<and>
      countsByTab (fst (doScanForTab st tab now env)) tab =
        Some (countMatches (env_pageIds env) (registryUsed st env)))"
proof -
  have "sellersSet R = (\<lambda>r. String_js (seller_id r)) ` set R"
    by (simp add: sellersSet_def)
  then show ?thesis
    by (simp add: countMatches_def matchLoop_filter doScanForTab_open scanPipeline_counts
        registryUsed_stamp)
qed

theorem C1_match_count_witness:
  "countMatches [JStr ''123'', JStr ''789'']
     [\<lparr>seller_id = JStr ''123''\<rparr>, \<lparr>seller_id = JNum 456\<rparr>] = 1 \<and>
   countMatches [JStr ''12'', JStr ''456'']
     [\<lparr>seller_id = JStr ''123''\<rparr>, \<lparr>seller_id = JNum 456\<rparr>] = 1 \<and>
   gateOpen initState 7 100000 \<and> tabOk sampleEnv \<and>
   js_return (snd (doScanForTab initState 7 100000 sampleEnv)) = Some 1 \<and>
   countsByTab (fst (doScanForTab initState 7 100000 sampleEnv)) 7 = Some 1"
proof -
  have a: "countMatches [JStr ''123'', JStr ''789'']
             [\<lparr>seller_id = JStr ''123''\<rparr>, \<lparr>seller_id = JNum 456\<rparr>] = 1"
    using C1_match_count [of "[JStr ''123'', JStr ''789'']"
            "[\<lparr>seller_id = JStr ''123''\<rparr>, \<lparr>seller_id = JNum 456\<rparr>]"
            initState 7 100000 sampleEnv]
    by (simp add: countMatches_def sellersSet_def showInt_def digits10.simps digitChar_def)
  have b: "countMatches [JStr ''12'', JStr ''456'']
             [\<lparr>seller_id = JStr ''123''\<rparr>, \<lparr>seller_id = JNum 456\<rparr>] = 1"
    by (simp add: countMatches_def sellersSet_def showInt_def digits10.simps digitChar_def)
  show ?thesis
    using a b gate_init tabOk_sample by (simp add: sample_scan)
qed

text \<open>
  C7. fetchWithTimeoutAndRetry makes at most \<open>1 + retries\<close> attempts (\<open>retries\<close> is 1 when
  left out); its fetches and pauses alternate, the pause after attempt number \<open>k\<close> being
  \<open>300 * k\<close> ms; no abort timer is left armed when it exits; it never leaves the loop without
  a result; and when every attempt fails it has made exactly \<open>1 + retries\<close> attempts and
  throws the error of the last one.
\<close>

theorem C7_fetch_with_retry:
  "(let retries = (case ropt of None \<Rightarrow> 1 | Some r \<Rightarrow> r);
        (evs, res) = fetchWithTimeoutAndRetry net url topt ropt
    in attempts evs \<le> 1 + retries
     \<and> filter isFetchOrSleep evs = rhythm url 1 (attempts evs)
     \<and> armed {} evs = {}
     \<and> res \<noteq> FellThrough
     \<and> ((\<forall>k \<le> retries. attemptError (net k) \<noteq> None) \<longrightarrow>
          attempts evs = 1 + retries \<and>
          (case res of Thrown e \<Rightarrow> attemptError (net retries) = Some e | _ \<Rightarrow> False)))"
proof -
  define t where "t = (case topt of None \<Rightarrow> FETCH_TIMEOUT_MS | Some t \<Rightarrow> t)"
  define r where "r = (case ropt of None \<Rightarrow> 1 | Some r \<Rightarrow> r)"
  obtain evs res where run: "fetchLoop net url t r 0 = (evs, res)"
    by (cases "fetchLoop net url t r 0")
  have unfold: "fetchWithTimeoutAndRetry net url topt ropt = (evs, res)"
    using run
    by (simp add: fetchWithTimeoutAndRetry_def t_def r_def FETCH_RETRIES_def split: option.splits)
  have a: "attempts evs \<le> 1 + r"
    using fetchLoop_attempts_le [of net url t r 0] run by simp
  have b: "filter isFetchOrSleep evs = rhythm url 1 (attempts evs)"
    using fetchLoop_rhythm [of net url t r 0] run by simp
  have c: "armed {} evs = {}"
    using fetchLoop_armed [of "{}" net url t r 0] run by simp
  have d: "res \<noteq> FellThrough"
    using fetchLoop_not_fell [of 0 r net url t] run by simp
  have e: "attempts evs = 1 + r \<and>
           (case res of Thrown e \<Rightarrow> attemptError (net r) = Some e | _ \<Rightarrow> False)"
    if "\<forall>k \<le> r. attemptError (net k) \<noteq> None"
  proof -
    from that have "attemptError (net r) \<noteq> None" by simp
    then obtain err where err: "attemptError (net r) = Some err" by auto
    from that fetchLoop_all_fail [of 0 r net url t] run
    show ?thesis by (simp add: err)
  qed
  show ?thesis
    unfolding Let_def unfold r_def [symmetric]
    using a b c d e by simp
qed

theorem C7_fetch_with_retry_witness:
  "attemptError (Rejected Aborted) \<noteq> None \<and>
   fetchWithTimeoutAndRetry (\<lambda>k. Rejected Aborted) ''u'' None None =
     ([SetAbortTimer 0 8000, FetchCall ''u'', ClearTimer 0, Sleep 300,
       SetAbortTimer 1 8000, FetchCall ''u'', ClearTimer 1], Thrown Aborted) \<and>
   attempts (fst (fetchWithTimeoutAndRetry (\<lambda>k. Rejected Aborted) ''u'' None None)) = 2"
  using C7_fetch_with_retry [of None "\<lambda>k. Rejected Aborted" "''u''" None]
  by (simp add: fetchWithTimeoutAndRetry_def fetchLoop.simps FETCH_RETRIES_def
      FETCH_TIMEOUT_MS_def attempts_def)

text \<open>
  C3. The staleness test that doScanForTab makes before counting holds exactly when the
  cached sequence is empty or \<open>now - fetchedAt > ttl\<close>; in particular it always holds for
  an empty cache, whatever the ttl. A scan that gets to the test refreshes the stored
  cache when the test holds and leaves it as it was otherwise.
\<close>

theorem C3_staleness:
  "(isStale c now ttl \<longleftrightarrow> c_sellers c = [] \<or> now - c_ts c > ttl) \<and>
   (c_sellers c = [] \<longrightarrow> isStale c now ttl) \<and>
   (gateOpen st tab t \<and> tabOk env \<longrightarrow>
      (let st' = fst (doScanForTab st tab t env);
           refreshed = fst (fetchAndCacheSellers st False (env_net env) (env_now_store env))
       in if isStale (getCachedSellers st) (env_now_check env) (cacheTtlMs st)
          then storedSellers st' = storedSellers refreshed \<and> storedTs st' = storedTs refreshed
          else storedSellers st' = storedSellers st \<and> storedTs st' = storedTs st))"
  by (simp add: isStale_iff doScanForTab_open scanPipeline_store getCachedSellers_stamp
      fetchAndCacheSellers_stamp Let_def)

theorem C3_staleness_witness:
  "isStale \<lparr>c_sellers = [], c_ts = 100000\<rparr> 100500 3600000 \<and>
   \<not> isStale \<lparr>c_sellers = sampleRegistry, c_ts = 100000\<rparr> 100500 3600000 \<and>
   isStale \<lparr>c_sellers = sampleRegistry, c_ts = 100000\<rparr> 3700001 3600000 \<and>
   gateOpen initState 7 100000 \<and> tabOk sampleEnv \<and>
   isStale (getCachedSellers initState) (env_now_check sampleEnv) (cacheTtlMs initState) \<and>
   storedTs (fst (doScanForTab initState 7 100000 sampleEnv)) = Some 100001"
proof -
  have stale0:
    "isStale (getCachedSellers initState) (env_now_check sampleEnv) (cacheTtlMs initState)"
    by (simp add: isStale_iff getCachedSellers_def initState_def)
  have ts: "storedTs (fst (doScanForTab initState 7 100000 sampleEnv)) = Some 100001"
    by (simp add: sample_scan)
  have a: "isStale \<lparr>c_sellers = [], c_ts = 100000\<rparr> 100500 3600000"
    using C3_staleness [of "\<lparr>c_sellers = [], c_ts = 100000\<rparr>" 100500 3600000
            initState 7 100000 sampleEnv]
    by simp
  have b: "\<not> isStale \<lparr>c_sellers = sampleRegistry, c_ts = 100000\<rparr> 100500 3600000"
    by (simp add: isStale_iff sampleRegistry_def)
  have c: "isStale \<lparr>c_sellers = sampleRegistry, c_ts = 100000\<rparr> 3700001 3600000"
    by (simp add: isStale_iff sampleRegistry_def)
  show ?thesis
    using a b c stale0 ts gate_init tabOk_sample by simp
qed

text \<open>
  C5, as the code has it. The cooldown is counted between calls of doScanForTab. Of two
  calls for one tab, the second less than the cooldown after the first, with the tab's
  last-scan time untouched in between, at most one gets past the gate; a call the gate
  rejects returns \<open>null\<close> and leaves the whole state as it was. The same holds for the two
  events that make the calls (a trigger handled with zero delay, a timer of the scheduler
  firing), and every scan an event runs comes from such a call.
\<close>

theorem C5_cooldown:
  assumes "t1 \<le> t2" and "t2 - t1 < SCAN_COOLDOWN_MS"
    and "doScanForTab st tab t1 e1 = (s1, r1)"
    and "lastScanAt s1' tab = lastScanAt s1 tab"
    and "doScanForTab s1' tab t2 e2 = (s2, r2)"
  shows "\<not> (passedGate r1 \<and> passedGate r2) \<and>
         (r1 = CoolingDown \<longrightarrow> s1 = st \<and> js_return r1 = None) \<and>
         (r2 = CoolingDown \<longrightarrow> s2 = s1' \<and> js_return r2 = None) \<and>
         (scanCall st eva = Some (tab, t1) \<and> scanCall u evb = Some (tab, t2) \<and>
          lastScanAt u tab = lastScanAt (fst (step st eva)) tab \<longrightarrow>
            \<not> (scanRan (snd (step st eva)) \<and> scanRan (snd (step u evb)))) \<and>
         (scanRan (snd (step st ev)) \<longrightarrow> scanCall st ev \<noteq> None)"
proof -
  have p1: "passedGate r1 = gateOpen st tab t1"
    using doScanForTab_passed [of st tab t1 e1] assms(3) by simp
  have p2: "passedGate r2 = gateOpen s1' tab t2"
    using doScanForTab_passed [of s1' tab t2 e2] assms(5) by simp
  have "\<not> gateOpen s1' tab t2" if "gateOpen st tab t1"
  proof -
    have "lastScanAt s1 tab = Some t1"
      using doScanForTab_stamp [OF that, of e1] assms(3) by simp
    then show ?thesis
      using assms(2,4) by (simp add: gateOpen_def)
  qed
  then have one: "\<not> (passedGate r1 \<and> passedGate r2)"
    using p1 p2 by blast
  have c1: "s1 = st" if "r1 = CoolingDown"
  proof -
    from that p1 have "\<not> gateOpen st tab t1" by simp
    from doScanForTab_closed [OF this, of e1] assms(3) show ?thesis by simp
  qed
  have c2: "s2 = s1'" if "r2 = CoolingDown"
  proof -
    from that p2 have "\<not> gateOpen s1' tab t2" by simp
    from doScanForTab_closed [OF this, of e2] assms(5) show ?thesis by simp
  qed
  have calls: "\<not> scanRan (snd (step u evb))"
    if "scanCall st eva = Some (tab, t1)" "scanCall u evb = Some (tab, t2)"
       "lastScanAt u tab = lastScanAt (fst (step st eva)) tab" "scanRan (snd (step st eva))"
  proof -
    from scanCall_stamp [OF that(1) that(4)] that(3) have "lastScanAt u tab = Some t1"
      by simp
    from scanCall_closed [OF that(2) this assms(2)] show ?thesis .
  qed
  have every: "scanCall st ev \<noteq> None" if "scanRan (snd (step st ev))"
    using that by (rule ran_scanCall)
  show ?thesis
    using one c1 c2 calls every by auto
qed

theorem C5_cooldown_witness:
  "(100000::int) \<le> 130000 \<and> 130000 - 100000 < SCAN_COOLDOWN_MS \<and>
   snd (doScanForTab initState 7 100000 sampleEnv) = Matches 1 \<and>
   doScanForTab (fst (doScanForTab initState 7 100000 sampleEnv)) 7 130000 sampleEnv =
     (fst (doScanForTab initState 7 100000 sampleEnv), CoolingDown) \<and>
   scanCall initState (Activated 7 100000 sampleEnv) = Some (7, 100000) \<and>
   scanCall (fst (step initState (Activated 7 100000 sampleEnv))) (Activated 7 130000 sampleEnv) =
     Some (7, 130000) \<and>
   scanRan (snd (step initState (Activated 7 100000 sampleEnv))) \<and>
   \<not> scanRan (snd (step (fst (step initState (Activated 7 100000 sampleEnv)))
                     (Activated 7 130000 sampleEnv))) \<and>
   (110000::int) \<le> 169000 \<and> 169000 - 110000 < SCAN_COOLDOWN_MS \<and>
   scanCall pendingState (TimerFired 1 110000 (envAt 110000)) = Some (7, 110000) \<and>
   scanCall rescheduledState (TimerFired 2 169000 (envAt 169000)) = Some (7, 169000) \<and>
   lastScanAt rescheduledState 7 =
     lastScanAt (fst (step pendingState (TimerFired 1 110000 (envAt 110000)))) 7 \<and>
   scanRan (snd (step pendingState (TimerFired 1 110000 (envAt 110000)))) \<and>
   \<not> scanRan (snd (step rescheduledState (TimerFired 2 169000 (envAt 169000))))"
proof -
  let ?s1 = "fst (doScanForTab initState 7 100000 sampleEnv)"
  let ?a1 = "Activated 7 100000 sampleEnv"
  let ?a2 = "Activated 7 130000 sampleEnv"
  let ?f1 = "TimerFired 1 110000 (envAt 110000)"
  let ?f2 = "TimerFired 2 169000 (envAt 169000)"
  have w: "130000 - 100000 < SCAN_COOLDOWN_MS"
    by (simp add: SCAN_COOLDOWN_MS_def)
  have first: "doScanForTab initState 7 100000 sampleEnv = (?s1, Matches 1)"
    by (simp add: sample_scan)
  have closed: "\<not> gateOpen ?s1 7 130000"
    by (simp add: sample_scan gateOpen_def SCAN_COOLDOWN_MS_def)
  have en: "badgeEnabled ?s1"
    by (simp add: doScanForTab_frame initState_def)
  have second: "doScanForTab ?s1 7 130000 sampleEnv = (?s1, CoolingDown)"
    using doScanForTab_closed [OF closed, of sampleEnv] en by simp
  have le: "(100000::int) \<le> 130000"
    by simp
  have res: "snd (doScanForTab initState 7 100000 sampleEnv) = Matches 1"
    by (simp add: sample_scan)
  have c1: "scanCall initState ?a1 = Some (7, 100000)"
    by (simp add: initState_def delayMsOf_def)
  have ran: "scanRan (snd (step initState ?a1))"
    using scanCall_ran [OF c1] gate_init by simp
  have c2: "scanCall (fst (step initState ?a1)) ?a2 = Some (7, 130000)"
    by (simp add: eval_defs)
  have imm: "\<not> scanRan (snd (step (fst (step initState ?a1)) ?a2))"
    using C5_cooldown [OF le w first refl second,
            where eva = ?a1 and u = "fst (step initState ?a1)" and evb = ?a2 and ev = ?a1]
      c1 c2 ran
    by simp
  have le': "(110000::int) \<le> 169000" and w': "169000 - 110000 < SCAN_COOLDOWN_MS"
    by (simp_all add: SCAN_COOLDOWN_MS_def)
  have d1: "scanCall pendingState ?f1 = Some (7, 110000)"
    by (simp add: pendingState_def)
  have d2: "scanCall rescheduledState ?f2 = Some (7, 169000)"
    by (simp add: rescheduledState_def)
  have same: "lastScanAt rescheduledState 7 = lastScanAt (fst (step pendingState ?f1)) 7"
    by (simp add: eval_defs rescheduledState_def)
  have ran': "scanRan (snd (step pendingState ?f1))"
    by (simp add: eval_defs)
  have pc1: "doScanForTab pendingState 7 110000 (envAt 110000) =
      (fst (doScanForTab pendingState 7 110000 (envAt 110000)),
       snd (doScanForTab pendingState 7 110000 (envAt 110000)))"
    by simp
  have pc2: "doScanForTab (fst (doScanForTab pendingState 7 110000 (envAt 110000))) 7 169000
        (envAt 169000) =
      (fst (doScanForTab (fst (doScanForTab pendingState 7 110000 (envAt 110000))) 7 169000
         (envAt 169000)),
       snd (doScanForTab (fst (doScanForTab pendingState 7 110000 (envAt 110000))) 7 169000
         (envAt 169000)))"
    by simp
  have del: "\<not> scanRan (snd (step rescheduledState ?f2))"
    using C5_cooldown [OF le' w' pc1 refl pc2,
            where eva = ?f1 and u = rescheduledState and evb = ?f2 and ev = ?f1]
      d1 d2 same ran'
    by simp
  show ?thesis
    by (intro conjI le w res second c1 c2 ran imm le' w' d1 d2 same ran' del)
qed

text \<open>
  C5 as stated fails with delayed timing: two activations of one tab arrive 59 s apart,
  the timer of the first fires on time at 110000 and the timer of the second, due at
  169000, fires one second late; both scans run.
\<close>

theorem C5_counterexample:
  "(159000::int) - 100000 < SCAN_COOLDOWN_MS \<and>
   triggerOf (Activated 7 100000 (envAt 100000)) = Some (7, 100000) \<and>
   triggerOf (Activated 7 159000 (envAt 159000)) = Some (7, 159000) \<and>
   fst (run delayedState
     [Activated 7 100000 (envAt 100000), TimerFired 1 110000 (envAt 110000),
      Activated 7 159000 (envAt 159000)]) = rescheduledState \<and>
   pendingTimeouts rescheduledState = [(2, 169000, 7)] \<and>
   snd (run delayedState
     [Activated 7 100000 (envAt 100000), TimerFired 1 110000 (envAt 110000),
      Activated 7 159000 (envAt 159000), TimerFired 2 170000 (envAt 170000)]) =
   [None, Some (Matches 1), None, Some (Matches 1)]"
proof -
  have late: "snd (run delayedState
     [Activated 7 100000 (envAt 100000), TimerFired 1 110000 (envAt 110000),
      Activated 7 159000 (envAt 159000), TimerFired 2 170000 (envAt 170000)]) =
     [None, Some (Matches 1), None, Some (Matches 1)]"
    by (simp add: eval_defs)
  have three: "fst (run delayedState
     [Activated 7 100000 (envAt 100000), TimerFired 1 110000 (envAt 110000),
      Activated 7 159000 (envAt 159000)]) = rescheduledState"
    by (simp only: on_time fst_conv)
  have due: "pendingTimeouts rescheduledState = [(2, 169000, 7)]"
    by (simp add: rescheduledState_def)
  have w: "(159000::int) - 100000 < SCAN_COOLDOWN_MS"
    by (simp add: SCAN_COOLDOWN_MS_def)
  have t1: "triggerOf (Activated 7 100000 (envAt 100000)) = Some (7, 100000)"
    and t2: "triggerOf (Activated 7 159000 (envAt 159000)) = Some (7, 159000)"
    by simp_all
  show ?thesis
    by (intro conjI w t1 t2 three due late)
qed

text \<open>
  C9, as the code has it. A call that gets past the cooldown gate stamps the tab's
  last-scan time with the current time before the tab is looked at. When the tab is gone,
  or its URL is missing or not http(s), the call ends there with only that stamp written,
  and every call of doScanForTab for the tab during the following cooldown window, whether
  made directly, by a trigger handled with zero delay or by a timer firing, is rejected by
  the gate.
\<close>

theorem C9_stamp_before_validation:
  assumes "gateOpen st tab now"
  shows "lastScanAt (fst (doScanForTab st tab now env)) tab = Some now \<and>
         (\<not> tabOk env \<longrightarrow>
            doScanForTab st tab now env =
              (st\<lparr>lastScanAt := (lastScanAt st)(tab \<mapsto> now)\<rparr>, BadTab) \<and>
            (\<forall>now' env'. now \<le> now' \<and> now' - now < SCAN_COOLDOWN_MS \<longrightarrow>
               doScanForTab (st\<lparr>lastScanAt := (lastScanAt st)(tab \<mapsto> now)\<rparr>) tab now' env' =
                 (st\<lparr>lastScanAt := (lastScanAt st)(tab \<mapsto> now)\<rparr>, CoolingDown)) \<and>
            (\<forall>u ev now'. lastScanAt u tab =
                            lastScanAt (fst (doScanForTab st tab now env)) tab \<and>
                          scanCall u ev = Some (tab, now') \<and> now' - now < SCAN_COOLDOWN_MS \<longrightarrow>
               \<not> scanRan (snd (step u ev)))) \<and>
         (scanRan (snd (step st ev)) \<longrightarrow> scanCall st ev \<noteq> None)"
proof -
  let ?s1 = "st\<lparr>lastScanAt := (lastScanAt st)(tab \<mapsto> now)\<rparr>"
  have en: "badgeEnabled st" using assms by (simp add: gateOpen_def)
  have closed: "\<not> gateOpen ?s1 tab now'" if "now' - now < SCAN_COOLDOWN_MS" for now'
    using that by (simp add: gateOpen_def)
  have again: "doScanForTab ?s1 tab now' env' = (?s1, CoolingDown)"
    if "now' - now < SCAN_COOLDOWN_MS" for now' env'
    using doScanForTab_closed [OF closed [OF that], of env'] en by simp
  have stamp: "lastScanAt (fst (doScanForTab st tab now env)) tab = Some now"
    using doScanForTab_stamp [OF assms, of env] by simp
  have abort: "doScanForTab st tab now env = (?s1, BadTab)" if "\<not> tabOk env"
    using doScanForTab_open [OF assms, of env] that by simp
  have skipped: "\<not> scanRan (snd (step u ev))"
    if "lastScanAt u tab = lastScanAt (fst (doScanForTab st tab now env)) tab"
       "scanCall u ev = Some (tab, now')" "now' - now < SCAN_COOLDOWN_MS" for u ev now'
  proof -
    from that(1) stamp have "lastScanAt u tab = Some now" by simp
    from scanCall_closed [OF that(2) this that(3)] show ?thesis .
  qed
  have every: "scanCall st ev \<noteq> None" if "scanRan (snd (step st ev))"
    using that by (rule ran_scanCall)
  show ?thesis
    using stamp abort again skipped every by simp
qed

theorem C9_stamp_before_validation_witness:
  "gateOpen initState 7 100000 \<and> \<not> tabOk goneEnv \<and>
   doScanForTab initState 7 100000 goneEnv =
     (initState\<lparr>lastScanAt := (lastScanAt initState)(7 \<mapsto> 100000)\<rparr>, BadTab) \<and>
   doScanForTab (initState\<lparr>lastScanAt := (lastScanAt initState)(7 \<mapsto> 100000)\<rparr>) 7 159999
       sampleEnv =
     (initState\<lparr>lastScanAt := (lastScanAt initState)(7 \<mapsto> 100000)\<rparr>, CoolingDown) \<and>
   scanCall (fst (doScanForTab initState 7 100000 goneEnv)) (Activated 7 159999 sampleEnv) =
     Some (7, 159999) \<and>
   \<not> scanRan (snd (step (fst (doScanForTab initState 7 100000 goneEnv))
                     (Activated 7 159999 sampleEnv))) \<and>
   gateOpen pendingState 7 110000 \<and> \<not> tabOk (goneAt 110000) \<and>
   snd (run pendingState
          [TimerFired 1 110000 (goneAt 110000), Activated 7 155000 (envAt 155000)]) =
     [Some BadTab, None] \<and>
   scanCall (fst (run pendingState
          [TimerFired 1 110000 (goneAt 110000), Activated 7 155000 (envAt 155000)]))
      (TimerFired 2 165000 (envAt 165000)) = Some (7, 165000) \<and>
   \<not> scanRan (snd (step (fst (run pendingState
          [TimerFired 1 110000 (goneAt 110000), Activated 7 155000 (envAt 155000)]))
      (TimerFired 2 165000 (envAt 165000))))"
proof -
  let ?u = "fst (run pendingState
          [TimerFired 1 110000 (goneAt 110000), Activated 7 155000 (envAt 155000)])"
  let ?f = "TimerFired 2 165000 (envAt 165000)"
  have gone: "\<not> tabOk goneEnv"
    by (simp add: tabOk_def goneEnv_def)
  have w: "(100000::int) \<le> 159999 \<and> 159999 - 100000 < SCAN_COOLDOWN_MS"
    by (simp add: SCAN_COOLDOWN_MS_def)
  have c: "scanCall (fst (doScanForTab initState 7 100000 goneEnv)) (Activated 7 159999 sampleEnv) =
             Some (7, 159999)"
    by (simp add: doScanForTab_frame delayMsOf_def initState_def)
  from C9_stamp_before_validation [OF gate_init, of goneEnv "Activated 7 159999 sampleEnv"]
    gone w gate_init c
  have imm: "doScanForTab initState 7 100000 goneEnv =
       (initState\<lparr>lastScanAt := (lastScanAt initState)(7 \<mapsto> 100000)\<rparr>, BadTab) \<and>
     doScanForTab (initState\<lparr>lastScanAt := (lastScanAt initState)(7 \<mapsto> 100000)\<rparr>) 7 159999
         sampleEnv =
       (initState\<lparr>lastScanAt := (lastScanAt initState)(7 \<mapsto> 100000)\<rparr>, CoolingDown) \<and>
     \<not> scanRan (snd (step (fst (doScanForTab initState 7 100000 goneEnv))
                       (Activated 7 159999 sampleEnv)))"
    by blast
  have g2: "gateOpen pendingState 7 110000"
    by (simp add: gateOpen_def pendingState_def delayedState_def initState_def
        SCAN_COOLDOWN_MS_def)
  have gone2: "\<not> tabOk (goneAt 110000)"
    by (simp add: tabOk_def goneAt_def)
  have trace: "snd (run pendingState
          [TimerFired 1 110000 (goneAt 110000), Activated 7 155000 (envAt 155000)]) =
     [Some BadTab, None]"
    by (simp add: eval_defs)
  have c2: "scanCall ?u ?f = Some (7, 165000)"
    by (simp add: eval_defs numeral_2_eq_2)
  have same: "lastScanAt ?u 7 =
                lastScanAt (fst (doScanForTab pendingState 7 110000 (goneAt 110000))) 7"
    by (simp add: eval_defs)
  have w2: "(165000::int) - 110000 < SCAN_COOLDOWN_MS"
    by (simp add: SCAN_COOLDOWN_MS_def)
  from C9_stamp_before_validation [OF g2, of "goneAt 110000" ?f] gone2 same c2 w2
  have del: "\<not> scanRan (snd (step ?u ?f))"
    by blast
  show ?thesis
    by (intro conjI gate_init gone imm [THEN conjunct1] imm [THEN conjunct2, THEN conjunct1]
        c imm [THEN conjunct2, THEN conjunct2] g2 gone2 trace c2 del)
qed

text \<open>
  C9 as stated fails with delayed timing: a scan aborted at 110000 stamps the tab; an
  activation at 165000, inside the cooldown window, is not skipped but sets a timer, and
  when that timer fires on time at 175000 a full scan runs.
\<close>

theorem C9_counterexample:
  "(165000::int) - 110000 < SCAN_COOLDOWN_MS \<and>
   triggerOf (Activated 7 165000 (envAt 165000)) = Some (7, 165000) \<and>
   lastScanAt (fst (run delayedState
     [Activated 7 100000 (goneAt 100000), TimerFired 1 110000 (goneAt 110000)])) 7 =
     Some 110000 \<and>
   snd (run delayedState
     [Activated 7 100000 (goneAt 100000), TimerFired 1 110000 (goneAt 110000),
      Activated 7 165000 (envAt 165000), TimerFired 2 175000 (envAt 175000)]) =
   [None, Some BadTab, None, Some (Matches 1)]"
  by (simp add: eval_defs)

text \<open>
  C2, as the code has it. When every attempt of the fetch fails the helper throws; when it
  throws, when \<open>json()\<close> rejects, when the body is \<open>null\<close>, or when no URL is configured,
  fetchAndCacheSellers returns \<open>null\<close> and the state, hence what getCachedSellers reads, is
  exactly as before. A body whose \<open>sellers\<close> is missing or not an array is not a failure:
  the empty sequence is stored with the current time and returned.
\<close>

theorem C2_refresh_failure:
  "(let out = snd (fetchWithTimeoutAndRetry net (sellersUrl st)
                     (Some FETCH_TIMEOUT_MS) (Some FETCH_RETRIES));
        after = fetchAndCacheSellers st force net now
    in ((\<forall>k \<le> FETCH_RETRIES. attemptError (net k) \<noteq> None) \<longrightarrow> (\<exists>e. out = Thrown e)) \<and>
       ((\<exists>e. out = Thrown e) \<or>
        (\<exists>res. out = Returned res \<and> (resp_json res = None \<or> resp_json res = Some DataNull)) \<or>
        sellersUrl st = []
          \<longrightarrow> after = (st, None) \<and> getCachedSellers (fst after) = getCachedSellers st) \<and>
       (\<forall>res p. sellersUrl st \<noteq> [] \<and> out = Returned res \<and> resp_json res = Some (DataValue p)
          \<longrightarrow> after =
                (st\<lparr>storedSellers := Some (case p of PropArray xs \<Rightarrow> xs | _ \<Rightarrow> []),
                    storedTs := Some now\<rparr>,
                 Some (case p of PropArray xs \<Rightarrow> xs | _ \<Rightarrow> []))))"
proof -
  define out where
    "out = snd (fetchWithTimeoutAndRetry net (sellersUrl st)
                  (Some FETCH_TIMEOUT_MS) (Some FETCH_RETRIES))"
  have net_fail: "\<exists>e. out = Thrown e" if "\<forall>k \<le> FETCH_RETRIES. attemptError (net k) \<noteq> None"
  proof -
    from that have "attemptError (net FETCH_RETRIES) \<noteq> None" by simp
    then obtain err where "attemptError (net FETCH_RETRIES) = Some err" by auto
    with that fetchLoop_all_fail [of 0 FETCH_RETRIES net "sellersUrl st" FETCH_TIMEOUT_MS]
    show ?thesis
      by (simp add: out_def fetchWithTimeoutAndRetry_def)
  qed
  have fail: "fetchAndCacheSellers st force net now = (st, None)"
    if "(\<exists>e. out = Thrown e) \<or>
        (\<exists>res. out = Returned res \<and> (resp_json res = None \<or> resp_json res = Some DataNull)) \<or>
        sellersUrl st = []"
    using that unfolding out_def
    by (subst fetchAndCacheSellers_cases) auto
  have ok: "fetchAndCacheSellers st force net now =
              (st\<lparr>storedSellers := Some (case p of PropArray xs \<Rightarrow> xs | _ \<Rightarrow> []),
                  storedTs := Some now\<rparr>,
               Some (case p of PropArray xs \<Rightarrow> xs | _ \<Rightarrow> []))"
    if "sellersUrl st \<noteq> []" "out = Returned res" "resp_json res = Some (DataValue p)" for res p
    using that unfolding out_def
    by (subst fetchAndCacheSellers_cases) simp
  show ?thesis
    unfolding Let_def out_def [symmetric]
    using net_fail fail ok by auto
qed

theorem C2_refresh_failure_witness:
  "attemptError (Rejected Aborted) \<noteq> None \<and>
   fetchAndCacheSellers cachedState False (\<lambda>k. Rejected Aborted) 200000 = (cachedState, None) \<and>
   sellersUrl cachedState \<noteq> [] \<and>
   fetchAndCacheSellers cachedState False
     (\<lambda>k. Resolved \<lparr>resp_ok = True, resp_status = 200, resp_json = None\<rparr>) 200000 =
     (cachedState, None)"
proof -
  let ?parse = "\<lambda>k::nat. Resolved \<lparr>resp_ok = True, resp_status = 200, resp_json = None\<rparr>"
  have url: "sellersUrl cachedState \<noteq> []"
    by (simp add: cachedState_def initState_def DEFAULT_SELLERS_URL_def)
  have a: "snd (fetchWithTimeoutAndRetry (\<lambda>k. Rejected Aborted) (sellersUrl cachedState)
                  (Some FETCH_TIMEOUT_MS) (Some FETCH_RETRIES)) = Thrown Aborted"
    by (simp add: fetchWithTimeoutAndRetry_def fetchLoop.simps FETCH_RETRIES_def)
  have b: "snd (fetchWithTimeoutAndRetry ?parse (sellersUrl cachedState)
                  (Some FETCH_TIMEOUT_MS) (Some FETCH_RETRIES)) =
             Returned \<lparr>resp_ok = True, resp_status = 200, resp_json = None\<rparr>"
    by (simp add: fetchWithTimeoutAndRetry_def fetchLoop.simps FETCH_RETRIES_def)
  have r1: "fetchAndCacheSellers cachedState False (\<lambda>k. Rejected Aborted) 200000 =
              (cachedState, None)"
    using C2_refresh_failure [of "\<lambda>k. Rejected Aborted" cachedState False 200000] a
    by (simp add: Let_def)
  have r2: "fetchAndCacheSellers cachedState False ?parse 200000 = (cachedState, None)"
    using C2_refresh_failure [of ?parse cachedState False 200000] b
    by (simp add: Let_def)
  show ?thesis
    using url r1 r2 by simp
qed

text \<open>
  C2 as stated fails: a response without a \<open>sellers\<close> field makes the refresh return the
  empty array, not \<open>null\<close>, and replaces a stored registry of two sellers by the empty one.
\<close>

theorem C2_counterexample:
  "fetchAndCacheSellers cachedState False noSellersNet 200000 =
     (cachedState\<lparr>storedSellers := Some [], storedTs := Some 200000\<rparr>, Some []) \<and>
   getCachedSellers cachedState = \<lparr>c_sellers = sampleRegistry, c_ts = 100001\<rparr> \<and>
   getCachedSellers (fst (fetchAndCacheSellers cachedState False noSellersNet 200000)) =
     \<lparr>c_sellers = [], c_ts = 200000\<rparr>"
  by (simp add: fetch_noSellers getCachedSellers_def cachedState_def initState_def
      DEFAULT_SELLERS_URL_def)

text \<open>
  C4. The getSellersCache handler answers with what getCachedSellers reads, without
  waiting for a refresh. At the input below, a cache holding the empty sequence with a
  recent timestamp (as a refresh leaves it after a response without a \<open>sellers\<close> field),
  the cached sequence is empty, so the staleness test of the scan holds, yet the handler
  starts no refresh: its guard tests the timestamp only.
\<close>

theorem C4_empty_cache_not_refreshed:
  "fst (fetchAndCacheSellers cachedState False noSellersNet 200000) = emptyFresh \<and>
   c_sellers (getCachedSellers emptyFresh) = [] \<and>
   isStale (getCachedSellers emptyFresh) 201000 (cacheTtlMs emptyFresh) \<and>
   onMessage_getSellersCache emptyFresh 201000 = (\<lparr>c_sellers = [], c_ts = 200000\<rparr>, False) \<and>
   getSellersCache_settled emptyFresh 201000 (env_net sampleEnv) 201001 = emptyFresh"
proof -
  have reach: "fst (fetchAndCacheSellers cachedState False noSellersNet 200000) = emptyFresh"
    by (simp add: fetch_noSellers emptyFresh_def)
       (simp add: cachedState_def initState_def DEFAULT_SELLERS_URL_def)
  have c: "getCachedSellers emptyFresh = \<lparr>c_sellers = [], c_ts = 200000\<rparr>"
    by (simp add: getCachedSellers_def emptyFresh_def)
  have t: "cacheTtlMs emptyFresh = 3600000"
    by (simp add: emptyFresh_def cachedState_def initState_def)
  have h: "onMessage_getSellersCache emptyFresh 201000 = (\<lparr>c_sellers = [], c_ts = 200000\<rparr>, False)"
    by (simp add: onMessage_getSellersCache_def c t)
  show ?thesis
    using reach h by (simp add: c isStale_def getSellersCache_settled_def)
qed

theorem C4_empty_cache_not_refreshed_witness:
  "\<not> snd (onMessage_getSellersCache emptyFresh 201000) \<and>
   isStale (getCachedSellers emptyFresh) 201000 (cacheTtlMs emptyFresh)"
  using C4_empty_cache_not_refreshed by simp

text \<open>
  C10, as the code has it. A pushed count takes effect as \<open>max(0, count)\<close> when it is a
  finite number and as 0 otherwise; scanResult stores that value for the sender's tab;
  every handler keeps all stored counts at 0 or above. While the badge is enabled, the text
  shown for a pushed count (setBadge, and scanResult from the active tab) is the decimal
  form of the effective count when that is positive and empty otherwise, so it is empty
  exactly when the effective count is 0. While the badge is disabled the text is empty
  whatever the count.
\<close>

theorem C10_pushed_counts:
  "clampCount v = (case v of JNum n \<Rightarrow> max 0 n | _ \<Rightarrow> 0) \<and>
   countsByTab (onMessage_scanResult st (Some tab) v active) tab = Some (clampCount v) \<and>
   (countsNonneg st \<longrightarrow> countsNonneg (fst (run st es))) \<and>
   (badgeEnabled st \<longrightarrow>
      badgeText (onMessage_setBadge st v) =
        (if 0 < clampCount v then String_js (JNum (clampCount v)) else []) \<and>
      badgeText (onMessage_scanResult st (Some tab) v (Some tab)) =
        (if 0 < clampCount v then String_js (JNum (clampCount v)) else []) \<and>
      (badgeText (onMessage_setBadge st v) = [] \<longleftrightarrow> clampCount v = 0) \<and>
      (badgeText (onMessage_scanResult st (Some tab) v (Some tab)) = [] \<longleftrightarrow> clampCount v = 0)) \<and>
   (\<not> badgeEnabled st \<longrightarrow>
      badgeText (onMessage_setBadge st v) = [] \<and>
      badgeText (onMessage_scanResult st (Some tab) v (Some tab)) = [])"
proof -
  have z: "(\<not> 0 < clampCount v) = (clampCount v = 0)"
    using clampCount_nonneg [of v] by auto
  show ?thesis
    using z
    by (simp add: clampCount_cases [symmetric] scanResult_counts run_countsNonneg
        setBadge_text scanResult_text showInt_nonempty)
qed

theorem C10_pushed_counts_witness:
  "badgeEnabled initState \<and> countsNonneg initState \<and>
   clampCount (JNum 5) = 5 \<and> clampCount (JNum (- 3)) = 0 \<and> clampCount (JStr ''5'') = 0 \<and>
   clampCount JPosInf = 0 \<and>
   badgeText (onMessage_setBadge initState (JNum 5)) = ''5'' \<and>
   badgeText (onMessage_setBadge initState (JNum (- 3))) = [] \<and>
   countsByTab (onMessage_scanResult initState (Some 7) (JNum (- 3)) (Some 7)) 7 = Some 0 \<and>
   countsNonneg (fst (run initState [MsgScanResult (Some 7) (JNum (- 3)) (Some 7)]))"
proof -
  have en: "badgeEnabled initState"
    by (simp add: initState_def)
  have c: "clampCount (JNum 5) = 5" "clampCount (JNum (- 3)) = 0" "clampCount (JStr ''5'') = 0"
    "clampCount JPosInf = 0"
    by (simp_all add: clampCount_cases)
  have five: "showInt 5 = ''5''"
    by (simp add: showInt_def digits10.simps digitChar_def)
  show ?thesis
    using C10_pushed_counts [of "JNum 5" initState 7 "Some 7"
            "[MsgScanResult (Some 7) (JNum (- 3)) (Some 7)]"]
          C10_pushed_counts [of "JNum (- 3)" initState 7 "Some 7"
            "[MsgScanResult (Some 7) (JNum (- 3)) (Some 7)]"]
          en countsNonneg_init
    by (simp add: c five)
qed

text \<open>
  C10 as stated fails while the badge is disabled: a pushed count of 5 keeps its effective
  value 5 (scanResult stores it), and the badge text is empty all the same.
\<close>

theorem C10_counterexample:
  "\<not> badgeEnabled (initState\<lparr>badgeEnabled := False\<rparr>) \<and>
   clampCount (JNum 5) = 5 \<and>
   badgeText (onMessage_setBadge (initState\<lparr>badgeEnabled := False\<rparr>) (JNum 5)) = [] \<and>
   countsByTab (onMessage_scanResult (initState\<lparr>badgeEnabled := False\<rparr>)
                  (Some 7) (JNum 5) (Some 7)) 7 = Some 5 \<and>
   badgeText (onMessage_scanResult (initState\<lparr>badgeEnabled := False\<rparr>)
                  (Some 7) (JNum 5) (Some 7)) = []"
  by (simp add: clampCount_cases setBadge_text scanResult_text scanResult_counts)

text \<open>
  C8. While badgeEnabled is false: whatever activations, tab updates and timer firings
  arrive, no call of doScanForTab gets past its first line, no last-scan time, count or
  cache entry changes, no timer is added, and after any activation or update the badge
  text is the empty string. scheduleScan only cancels, doScanForTab returns at once, and
  applyBadgeForTab sets the empty text.
\<close>

theorem C8_badge_disabled:
  assumes "\<not> badgeEnabled st" and "\<forall>e \<in> set es. isSchedulerEvent e"
  shows "(\<forall>r \<in> set (snd (run st es)). \<not> scanRan r) \<and>
         \<not> badgeEnabled (fst (run st es)) \<and>
         lastScanAt (fst (run st es)) = lastScanAt st \<and>
         countsByTab (fst (run st es)) = countsByTab st \<and>
         storedSellers (fst (run st es)) = storedSellers st \<and>
         storedTs (fst (run st es)) = storedTs st \<and>
         lastHandle (fst (run st es)) = lastHandle st \<and>
         set (pendingTimeouts (fst (run st es))) \<subseteq> set (pendingTimeouts st) \<and>
         badgeText (fst (run st es)) = (if \<exists>e \<in> set es. isTabEvent e then [] else badgeText st) \<and>
         onActivated st tab now env = (st\<lparr>badgeText := []\<rparr>, None) \<and>
         onUpdated st tab ci now env = (st\<lparr>badgeText := []\<rparr>, None) \<and>
         scheduleScan st tab now env = (cancelScheduled st tab, None) \<and>
         set (pendingTimeouts (cancelScheduled st tab)) \<subseteq> set (pendingTimeouts st) \<and>
         doScanForTab st tab now env = (st, Disabled) \<and>
         applyBadgeForTab st tab = st\<lparr>badgeText := []\<rparr>"
proof -
  have cancel: "set (pendingTimeouts (cancelScheduled st tab)) \<subseteq> set (pendingTimeouts st)"
    by (auto simp: cancelScheduled_def split: option.splits)
  show ?thesis
    using disabled_run [OF assms] disabled_handlers [OF assms(1)] cancel
    by (simp add: quietSince_def)
qed

theorem C8_badge_disabled_witness:
  "\<not> badgeEnabled (initState\<lparr>badgeEnabled := False, badgeText := ''3''\<rparr>) \<and>
   isSchedulerEvent (Activated 7 100000 sampleEnv) \<and>
   isSchedulerEvent (Updated 7 \<lparr>ci_status = Some ''complete'', ci_url = None\<rparr> 100500 sampleEnv) \<and>
   run (initState\<lparr>badgeEnabled := False, badgeText := ''3''\<rparr>)
     [Activated 7 100000 sampleEnv,
      Updated 7 \<lparr>ci_status = Some ''complete'', ci_url = None\<rparr> 100500 sampleEnv] =
     (initState\<lparr>badgeEnabled := False, badgeText := []\<rparr>, [None, None])"
  using C8_badge_disabled [of "initState\<lparr>badgeEnabled := False, badgeText := ''3''\<rparr>"
          "[Activated 7 100000 sampleEnv,
            Updated 7 \<lparr>ci_status = Some ''complete'', ci_url = None\<rparr> 100500 sampleEnv]"
          7 100000 sampleEnv "\<lparr>ci_status = Some ''complete'', ci_url = None\<rparr>"]
  by (simp add: onActivated_def onUpdated_def)

text \<open>
  C6, as the code has it. A tab has a pending delayed scan (its timer \<open>h\<close> is in
  scheduledTimers), the badge is enabled and the timing is delayed with a positive delay.
  A further trigger that reaches scheduleScan (an activation of the tab, or a completed
  load while the tab is the active one) runs no scan at once; it takes the timer \<open>h\<close> out
  of the browser's table, so that \<open>h\<close> firing later does nothing, and sets a new timer, the
  tab's only one, due \<open>scanDelay\<close> seconds after this trigger. When the new timer fires it
  calls doScanForTab once (the scan runs if the cooldown gate is open) and no timer is left
  for the tab. A completed load of a tab that is not the active one changes nothing.
\<close>

theorem C6_reschedule:
  fixes st :: bg_state and tab now :: int and env :: scan_env
  assumes "timersOk st" and "scheduledTimers st tab = Some h"
    and "badgeEnabled st" and "scanTiming st = ''delayed''" and "0 < scanDelay st"
  defines "st' \<equiv> fst (scheduleScan st tab now env)"
    and "h' \<equiv> Suc (lastHandle st)"
  shows "snd (scheduleScan st tab now env) = None \<and>
         h \<notin> fst ` set (pendingTimeouts st') \<and>
         timerFired st' h t env' = (st', None) \<and>
         h' \<noteq> h \<and> scheduledTimers st' tab = Some h' \<and>
         timersFor st' tab = [(h', now + scanDelay st * 1000, tab)] \<and>
         timersOk st' \<and>
         scanRan (snd (timerFired st' h' t env')) = gateOpen st' tab t \<and>
         timersFor (fst (timerFired st' h' t env')) tab = [] \<and>
         snd (onActivated st tab now env) = None \<and>
         pendingTimeouts (fst (onActivated st tab now env)) = pendingTimeouts st' \<and>
         scheduledTimers (fst (onActivated st tab now env)) = scheduledTimers st' \<and>
         (ci_status ci = Some ''complete'' \<and> env_active env = Some tab \<longrightarrow>
            snd (onUpdated st tab ci now env) = None \<and>
            pendingTimeouts (fst (onUpdated st tab ci now env)) = pendingTimeouts st' \<and>
            scheduledTimers (fst (onUpdated st tab ci now env)) = scheduledTimers st') \<and>
         (ci_status ci = Some ''complete'' \<and> ci_url ci = None \<and> env_active env \<noteq> Some tab \<longrightarrow>
            onUpdated st tab ci now env = (st, None))"
proof -
  let ?c = "cancelScheduled st tab"
  have d: "delayMsOf st = scanDelay st * 1000" "delayMsOf st \<noteq> 0"
    using assms(4,5) by (simp_all add: delayMsOf_def)
  have sched: "scheduleScan st tab now env =
     (?c\<lparr>scheduledTimers := (scheduledTimers ?c)(tab \<mapsto> h'),
         pendingTimeouts := pendingTimeouts ?c @ [(h', now + scanDelay st * 1000, tab)],
         lastHandle := h'\<rparr>, None)"
    using scheduleScan_delayed [OF assms(3) d(2), of tab now env]
    by (simp add: d(1) h'_def cancelScheduled_frame)
  have st': "st' = ?c\<lparr>scheduledTimers := (scheduledTimers ?c)(tab \<mapsto> h'),
         pendingTimeouts := pendingTimeouts ?c @ [(h', now + scanDelay st * 1000, tab)],
         lastHandle := h'\<rparr>"
    by (simp add: st'_def sched)
  note c = cancelScheduled_timersOk [OF assms(1), of tab]
  have lh: "lastHandle ?c = lastHandle st"
    by (simp add: cancelScheduled_frame)
  have ok': "timersOk st'" and only: "timersFor st' tab = [(h', now + scanDelay st * 1000, tab)]"
    using timersOk_add [OF c(1) c(3), of "now + scanDelay st * 1000"]
    by (simp_all add: st' h'_def lh)
  have hle: "h \<le> lastHandle st" "0 < h"
    using timersOk_pending [OF assms(1,2)] timersOk_entry [OF assms(1)] by blast+
  then have ne: "h' \<noteq> h"
    by (simp add: h'_def)
  have gone: "h \<notin> fst ` set (pendingTimeouts st')"
    using timersOk_remove(3) [OF assms(1,2)] ne
    by (simp add: st' cancelScheduled_pending [OF assms(1,2)])
  have old: "timerFired st' h t env' = (st', None)"
    using gone by (rule timerFired_absent)
  have mem: "(h', now + scanDelay st * 1000, tab) \<in> set (pendingTimeouts st')"
    by (simp add: st')
  have s': "scheduledTimers st' tab = Some h'"
    by (simp add: st')
  let ?f = "st'\<lparr>pendingTimeouts := filter (\<lambda>(x, due, tab). x \<noteq> h') (pendingTimeouts st'),
               scheduledTimers := (scheduledTimers st')(tab := None)\<rparr>"
  have fire: "timerFired st' h' t env' =
      (fst (doScanForTab ?f tab t env'), Some (snd (doScanForTab ?f tab t env')))"
    by (rule timerFired_unfold [OF ok' mem])
  have g: "gateOpen ?f tab t = gateOpen st' tab t"
    by (simp add: gateOpen_def)
  have ran: "scanRan (snd (timerFired st' h' t env')) = gateOpen st' tab t"
    by (simp add: fire doScanForTab_passed g)
  have after: "timersFor (fst (timerFired st' h' t env')) tab = []"
    using timersOk_remove(2) [OF ok' s']
    by (simp add: fire doScanForTab_timersFor)
  have act: "onActivated st tab now env = scheduleScan (applyBadgeForTab st tab) tab now env"
    using assms(3) by (simp add: onActivated_def)
  have en: "badgeEnabled (applyBadgeForTab st tab)" "delayMsOf (applyBadgeForTab st tab) \<noteq> 0"
    using assms(3) d(2) by (simp_all add: applyBadgeForTab_frame delayMsOf_badge)
  have a: "snd (onActivated st tab now env) = None"
    "pendingTimeouts (fst (onActivated st tab now env)) = pendingTimeouts st'"
    "scheduledTimers (fst (onActivated st tab now env)) = scheduledTimers st'"
    by (simp_all add: act scheduleScan_delayed [OF en] st' cancelScheduled_badge
        cancelScheduled_frame applyBadgeForTab_frame delayMsOf_badge d(1) h'_def)
  have upd: "snd (onUpdated st tab ci now env) = None \<and>
             pendingTimeouts (fst (onUpdated st tab ci now env)) = pendingTimeouts st' \<and>
             scheduledTimers (fst (onUpdated st tab ci now env)) = scheduledTimers st'"
    if u: "ci_status ci = Some ''complete''" "env_active env = Some tab"
  proof (cases "case ci_url ci of None \<Rightarrow> False | Some u \<Rightarrow> u \<noteq> []")
    case False
    then show ?thesis
      using u assms(3) by (simp add: onUpdated_enabled Let_def st'_def sched)
  next
    case True
    let ?n = "st\<lparr>countsByTab := (countsByTab st)(tab := None)\<rparr>"
    let ?s1 = "cancelScheduled ?n tab"
    have okn: "timersOk ?n"
      using assms(1) by (rule timersOk_frame) simp_all
    have ds: "delayMsOf ?s1 = delayMsOf st"
      by (simp add: delayMsOf_def cancelScheduled_frame)
    have en1: "badgeEnabled ?s1" "delayMsOf ?s1 \<noteq> 0"
      using assms(3) d(2) ds by (simp_all add: cancelScheduled_frame)
    have idem: "cancelScheduled ?s1 tab = ?s1"
      by (rule cancelScheduled_idem [OF okn])
    have dl: "delayMsOf ?s1 = scanDelay st * 1000"
      using d(1) ds by simp
    have lh1: "lastHandle ?s1 = lastHandle st"
      by (simp add: cancelScheduled_frame)
    show ?thesis
      using u True assms(3)
      by (simp add: onUpdated_enabled Let_def scheduleScan_delayed [OF en1] idem dl lh1
          applyBadgeForTab_frame cancelScheduled_counts st' h'_def)
  qed
  have bg: "onUpdated st tab ci now env = (st, None)"
    if "ci_status ci = Some ''complete''" "ci_url ci = None" "env_active env \<noteq> Some tab"
    using that assms(3) by (simp add: onUpdated_enabled Let_def)
  show ?thesis
    using sched old ne s' only ok' ran after a gone upd bg by simp
qed

theorem C6_reschedule_witness:
  "scheduleScan delayedState 7 100000 sampleEnv = (pendingState, None) \<and>
   timersOk pendingState \<and> scheduledTimers pendingState 7 = Some 1 \<and>
   badgeEnabled pendingState \<and> scanTiming pendingState = ''delayed'' \<and>
   0 < scanDelay pendingState \<and>
   timersFor pendingState 7 = [(1, 110000, 7)] \<and>
   timersFor (fst (scheduleScan pendingState 7 103000 sampleEnv)) 7 = [(2, 113000, 7)] \<and>
   timerFired (fst (scheduleScan pendingState 7 103000 sampleEnv)) 1 110000 sampleEnv =
     (fst (scheduleScan pendingState 7 103000 sampleEnv), None) \<and>
   scanRan (snd (timerFired (fst (scheduleScan pendingState 7 103000 sampleEnv))
                   2 113000 sampleEnv)) \<and>
   env_active sampleEnv = Some 7 \<and>
   pendingTimeouts (fst (onUpdated pendingState 7
       \<lparr>ci_status = Some ''complete'', ci_url = None\<rparr> 103000 sampleEnv)) =
     pendingTimeouts (fst (scheduleScan pendingState 7 103000 sampleEnv)) \<and>
   pendingTimeouts (fst (scheduleScan pendingState 7 103000 sampleEnv)) = [(2, 113000, 7)]"
proof -
  let ?ci = "\<lparr>ci_status = Some ''complete'', ci_url = None\<rparr>"
  have p: "scheduledTimers pendingState 7 = Some 1" "badgeEnabled pendingState"
    "scanTiming pendingState = ''delayed''" "0 < scanDelay pendingState"
    "lastHandle pendingState = 1" "scanDelay pendingState = 10"
    "timersFor pendingState 7 = [(1, 110000, 7)]"
    by (simp_all add: pendingState_def delayedState_def initState_def timersFor_def)
  have frame: "lastScanAt (fst (scheduleScan pendingState 7 103000 sampleEnv)) = Map.empty"
    "badgeEnabled (fst (scheduleScan pendingState 7 103000 sampleEnv))"
    by (simp_all add: scheduleScan_def cancelScheduled_def delayMsOf_def Let_def
      pendingState_def delayedState_def initState_def)
  have g: "gateOpen (fst (scheduleScan pendingState 7 103000 sampleEnv)) 7 113000"
    by (simp add: gateOpen_def frame SCAN_COOLDOWN_MS_def)
  have act: "env_active sampleEnv = Some 7"
    by (simp add: sampleEnv_def)
  have pt: "pendingTimeouts (fst (scheduleScan pendingState 7 103000 sampleEnv)) =
              [(2, 113000, 7)]"
    by (simp add: scheduleScan_def cancelScheduled_def delayMsOf_def Let_def
      pendingState_def delayedState_def initState_def numeral_2_eq_2)
  show ?thesis
    using C6_reschedule [OF pendingState_ok p(1) p(2) p(3) p(4),
            where now = 103000 and env = sampleEnv and t = 110000 and env' = sampleEnv
              and ci = ?ci]
          C6_reschedule [OF pendingState_ok p(1) p(2) p(3) p(4),
            where now = 103000 and env = sampleEnv and t = 113000 and env' = sampleEnv
              and ci = ?ci]
          first_trigger pendingState_ok p g act pt
    by (simp add: numeral_2_eq_2)
qed

text \<open>
  C6 as stated fails for a load-complete trigger of a tab that is not the active one: the
  pending timer set by the first trigger stays, and the scan runs when it fires, ten
  seconds after the first trigger.
\<close>

theorem C6_counterexample:
  "scheduleScan delayedState 7 100000 sampleEnv = (pendingState, None) \<and>
   timersOk pendingState \<and> scheduledTimers pendingState 7 = Some 1 \<and>
   badgeEnabled pendingState \<and> scanTiming pendingState = ''delayed'' \<and>
   0 < scanDelay pendingState \<and>
   triggerOf (Updated 7 \<lparr>ci_status = Some ''complete'', ci_url = None\<rparr> 103000 backgroundEnv) =
     Some (7, 103000) \<and>
   step pendingState
     (Updated 7 \<lparr>ci_status = Some ''complete'', ci_url = None\<rparr> 103000 backgroundEnv) =
     (pendingState, None) \<and>
   pendingTimeouts pendingState = [(1, 110000, 7)] \<and>
   snd (step pendingState (TimerFired 1 110000 (envAt 110000))) = Some (Matches 1)"
proof -
  have p: "scheduledTimers pendingState 7 = Some 1" "badgeEnabled pendingState"
    "scanTiming pendingState = ''delayed''" "0 < scanDelay pendingState"
    "pendingTimeouts pendingState = [(1, 110000, 7)]"
    by (simp_all add: pendingState_def delayedState_def initState_def)
  have bg: "step pendingState
     (Updated 7 \<lparr>ci_status = Some ''complete'', ci_url = None\<rparr> 103000 backgroundEnv) =
     (pendingState, None)"
    by (simp add: onUpdated_enabled [OF p(2)] Let_def backgroundEnv_def)
  have fire: "snd (step pendingState (TimerFired 1 110000 (envAt 110000))) = Some (Matches 1)"
    by (simp add: eval_defs)
  have trig: "triggerOf (Updated 7 \<lparr>ci_status = Some ''complete'', ci_url = None\<rparr> 103000
                backgroundEnv) = Some (7, 103000)"
    by simp
  show ?thesis
    by (intro conjI first_trigger pendingState_ok p trig bg fire)
qed

end
